theory Spec2Isabelle
  imports Complex_Main "HOL-Library.Stream"
begin

section \<open>Wolf-sheep predation: the agents of \<^verbatim>\<open>wolf_sheep/agents.py\<close>\<close>

text \<open>
  The module defines three agent classes on top of the simulation framework: \<^verbatim>\<open>Animal\<close>
  with its subclasses \<^verbatim>\<open>Sheep\<close> and \<^verbatim>\<open>Wolf\<close>, and \<^verbatim>\<open>GrassPatch\<close>.
  Agents are Python objects; here every object has a number (its \<^verbatim>\<open>unique_id\<close>), and
  the world holds the object store, the set of agents registered with the model, the
  occupant list of every cell, the neighbourhood of every cell, the shared random
  source, the simulator clock and the list of pending events.
\<close>

subsection \<open>Data\<close>

datatype error =
    StopIteration
  | IndexError
  | AttributeError
  | EmptySelectionError
  | InvalidScheduleError
  | NoSuchAgent

datatype kind = Sheep | Wolf

record animal =
  variant :: kind
  energy :: real
  p_reproduce :: real
  energy_from_food :: real
  cell :: "nat option"

record grass_patch =
  fully_grown :: bool
  grass_regrowth_time :: int
  patch_cell :: nat

datatype agent = Animal animal | GrassPatch grass_patch

text \<open>
  \<open>agents\<close> is the object store: an object stays there after \<^verbatim>\<open>remove()\<close>, as a Python
  object stays reachable through the references still held to it; \<open>registered\<close> is the
  model's set of live agents. \<open>cell_agents c\<close> is \<^verbatim>\<open>cell.agents\<close>, in insertion order;
  \<open>neighborhood c\<close> is \<^verbatim>\<open>cell.neighborhood\<close>. A pending event is its due time and the
  patch it targets: the only callback the module ever schedules is
  \<^verbatim>\<open>setattr(patch, "fully_grown", True)\<close>.
\<close>

record world =
  agents :: "nat \<Rightarrow> agent option"
  registered :: "nat set"
  next_id :: nat
  cell_agents :: "nat \<Rightarrow> nat list"
  neighborhood :: "nat \<Rightarrow> nat list"
  rng :: "nat stream"
  time :: int
  events :: "(int \<times> nat) list"

text \<open>
  A call either returns or raises. An exception leaves behind the world as it was when
  it was raised, with the assignments made before: \<open>Inl (e, w)\<close>.
\<close>

type_synonym 'a result = "(error \<times> world) + 'a"

definition state_after :: "world result \<Rightarrow> world" where
  "state_after r = (case r of Inl (e, w) \<Rightarrow> w | Inr w \<Rightarrow> w)"

subsection \<open>The framework operations the module calls\<close>

text \<open>\<^verbatim>\<open>isinstance(obj, Wolf)\<close>, \<^verbatim>\<open>isinstance(obj, Sheep)\<close>, \<^verbatim>\<open>isinstance(obj, GrassPatch)\<close>.\<close>

definition is_wolf :: "world \<Rightarrow> nat \<Rightarrow> bool" where
  "is_wolf w i = (case agents w i of Some (Animal x) \<Rightarrow> variant x = Wolf | _ \<Rightarrow> False)"

definition is_sheep :: "world \<Rightarrow> nat \<Rightarrow> bool" where
  "is_sheep w i = (case agents w i of Some (Animal x) \<Rightarrow> variant x = Sheep | _ \<Rightarrow> False)"

definition is_grass_patch :: "world \<Rightarrow> nat \<Rightarrow> bool" where
  "is_grass_patch w i = (case agents w i of Some (GrassPatch g) \<Rightarrow> True | _ \<Rightarrow> False)"

text \<open>\<^verbatim>\<open>isinstance(obj, GrassPatch) and obj.fully_grown\<close>\<close>

definition is_grown_patch :: "world \<Rightarrow> nat \<Rightarrow> bool" where
  "is_grown_patch w i = (case agents w i of Some (GrassPatch g) \<Rightarrow> fully_grown g | _ \<Rightarrow> False)"

text \<open>
  Modelled from the spec: the seeded random source (section 6: a single shared source),
  which is Python's \<^verbatim>\<open>random.Random\<close> and not part of the module. It is a stream of raw
  draws. \<^verbatim>\<open>random()\<close> reads the next draw as a 53-bit fraction in \<open>[0, 1)\<close>;
  \<^verbatim>\<open>choice(seq)\<close> raises \<^verbatim>\<open>IndexError\<close> on an empty sequence and otherwise returns the
  element at the index the next draw gives below \<open>len(seq)\<close>. Each call consumes one draw.
\<close>

definition random_random :: "world \<Rightarrow> real \<times> world" where
  "random_random w =
     (real (shd (rng w) mod 2 ^ 53) / 2 ^ 53, w\<lparr>rng := stl (rng w)\<rparr>)"

definition random_choice :: "'a list \<Rightarrow> world \<Rightarrow> ('a \<times> world) result" where
  "random_choice xs w =
     (if xs = [] then Inl (IndexError, w)
      else Inr (xs ! (shd (rng w) mod length xs), w\<lparr>rng := stl (rng w)\<rparr>))"

text \<open>
  Modelled from the spec: \<^verbatim>\<open>CellCollection.select_random_cell\<close> (section 4.1,
  \<^verbatim>\<open>random_cell\<close>: a uniform draw from a non-empty collection, failing with
  \<^verbatim>\<open>EmptySelectionError\<close> on an empty one).
\<close>

definition select_random_cell :: "nat list \<Rightarrow> world \<Rightarrow> (nat \<times> world) result" where
  "select_random_cell cells w =
     (case random_choice cells w of
        Inl (e, w') \<Rightarrow> Inl (EmptySelectionError, w')
      | Inr r \<Rightarrow> Inr r)"

text \<open>
  Modelled from the spec: the cell bookkeeping of section 4.1 (\<^verbatim>\<open>vacate\<close>, \<^verbatim>\<open>place\<close>)
  behind the \<^verbatim>\<open>cell\<close> property of \<^verbatim>\<open>CellAgent\<close>. Assigning \<^verbatim>\<open>agent.cell\<close> takes the agent
  out of the occupants of its old cell, if it has one, adds it to the occupants of the
  new cell, if there is one, and records the new cell in the agent.
\<close>

definition vacate :: "world \<Rightarrow> nat \<Rightarrow> nat \<Rightarrow> world" where
  "vacate w i c = w\<lparr>cell_agents := (cell_agents w)(c := removeAll i (cell_agents w c))\<rparr>"

definition place :: "world \<Rightarrow> nat \<Rightarrow> nat \<Rightarrow> world" where
  "place w i c = w\<lparr>cell_agents := (cell_agents w)(c := cell_agents w c @ [i])\<rparr>"

definition set_cell :: "world \<Rightarrow> nat \<Rightarrow> animal \<Rightarrow> nat option \<Rightarrow> world" where
  "set_cell w i x c =
     (let w1 = (case cell x of None \<Rightarrow> w | Some old \<Rightarrow> vacate w i old);
          w2 = (case c of None \<Rightarrow> w1 | Some new \<Rightarrow> place w1 i new)
      in w2\<lparr>agents := (agents w2)(i \<mapsto> Animal (x\<lparr>cell := c\<rparr>))\<rparr>)"

text \<open>
  Modelled from the spec: \<^verbatim>\<open>Agent.remove\<close> of a cell agent (section 4.3, \<^verbatim>\<open>remove\<close>, and
  section 7: only currently occupying sheep are scanned). The agent leaves the model's
  set of live agents and its cell.
\<close>

definition Agent_remove :: "world \<Rightarrow> nat \<Rightarrow> world result" where
  "Agent_remove w a =
     (case agents w a of
        Some (Animal x) \<Rightarrow> Inr (set_cell (w\<lparr>registered := registered w - {a}\<rparr>) a x None)
      | _ \<Rightarrow> Inl (NoSuchAgent, w))"

text \<open>
  Modelled from the spec: the event scheduler (section 4.2). \<^verbatim>\<open>schedule_event_relative\<close>
  fails on a negative delay and otherwise queues the event at the current time plus the
  delay, behind the events already queued.
\<close>

definition schedule_event_relative :: "world \<Rightarrow> int \<Rightarrow> nat \<Rightarrow> world result" where
  "schedule_event_relative w delay target =
     (if delay < 0 then Inl (InvalidScheduleError, w)
      else Inr (w\<lparr>events := events w @ [(time w + delay, target)]\<rparr>))"

subsection \<open>\<^verbatim>\<open>GrassPatch\<close>\<close>

text \<open>
  The setter of the property \<^verbatim>\<open>fully_grown\<close>: it stores the value and, when the value
  is false, schedules \<^verbatim>\<open>setattr(self, "fully_grown", True)\<close> at \<^verbatim>\<open>grass_regrowth_time\<close>.
\<close>

definition set_fully_grown :: "world \<Rightarrow> nat \<Rightarrow> bool \<Rightarrow> world result" where
  "set_fully_grown w p v =
     (case agents w p of
        Some (GrassPatch g) \<Rightarrow>
          (let w1 = w\<lparr>agents := (agents w)(p \<mapsto> GrassPatch (g\<lparr>fully_grown := v\<rparr>))\<rparr>
           in if \<not> v then schedule_event_relative w1 (grass_regrowth_time g) p
              else Inr w1)
      | _ \<Rightarrow> Inl (NoSuchAgent, w))"

text \<open>
  \<^verbatim>\<open>GrassPatch.__init__(model, countdown, grass_regrowth_time, cell)\<close>. The base class
  registers the new agent under a fresh id; \<^verbatim>\<open>_fully_grown\<close> is written directly, not
  through the setter; the patch is put on its cell; the first growth is scheduled at
  \<^verbatim>\<open>countdown\<close> when the patch does not start fully grown.
\<close>

definition GrassPatch_init :: "world \<Rightarrow> int \<Rightarrow> int \<Rightarrow> nat \<Rightarrow> world result" where
  "GrassPatch_init w countdown regrowth c =
     (let i = next_id w;
          g = \<lparr>fully_grown = (countdown = 0), grass_regrowth_time = regrowth, patch_cell = c\<rparr>;
          w1 = w\<lparr>next_id := Suc i, registered := insert i (registered w),
                 agents := (agents w)(i \<mapsto> GrassPatch g)\<rparr>;
          w2 = place w1 i c
      in if \<not> fully_grown g then schedule_event_relative w2 countdown i else Inr w2)"

subsection \<open>\<^verbatim>\<open>Animal\<close>\<close>

text \<open>
  \<^verbatim>\<open>Animal.__init__(model, energy, p_reproduce, energy_from_food, cell)\<close>: the base class
  registers the new agent under a fresh id, the fields are stored, and assigning
  \<^verbatim>\<open>self.cell\<close> puts the animal on the cell. The class of the new object is the first
  argument here.
\<close>

definition Animal_init ::
  "world \<Rightarrow> kind \<Rightarrow> real \<Rightarrow> real \<Rightarrow> real \<Rightarrow> nat option \<Rightarrow> world" where
  "Animal_init w k e p f c =
     (let i = next_id w;
          x = \<lparr>variant = k, energy = e, p_reproduce = p, energy_from_food = f, cell = None\<rparr>;
          w1 = w\<lparr>next_id := Suc i, registered := insert i (registered w),
                 agents := (agents w)(i \<mapsto> Animal x)\<rparr>
      in set_cell w1 i x c)"

text \<open>\<^verbatim>\<open>spawn_offspring\<close>: \<^verbatim>\<open>self.energy /= 2\<close>, then a new instance of \<^verbatim>\<open>self.__class__\<close>.\<close>

definition spawn_offspring :: "world \<Rightarrow> nat \<Rightarrow> world result" where
  "spawn_offspring w a =
     (case agents w a of
        Some (Animal x) \<Rightarrow>
          (let x' = x\<lparr>energy := energy x / 2\<rparr>;
               w1 = w\<lparr>agents := (agents w)(a \<mapsto> Animal x')\<rparr>
           in Inr (Animal_init w1 (variant x') (energy x') (p_reproduce x')
                     (energy_from_food x') (cell x')))
      | _ \<Rightarrow> Inl (NoSuchAgent, w))"

subsection \<open>\<^verbatim>\<open>Sheep\<close>\<close>

text \<open>
  \<^verbatim>\<open>Sheep.feed\<close>: \<^verbatim>\<open>next(...)\<close> takes the first grass patch among the occupants of the
  sheep's cell and raises \<^verbatim>\<open>StopIteration\<close> when there is none.
\<close>

definition Sheep_feed :: "world \<Rightarrow> nat \<Rightarrow> world result" where
  "Sheep_feed w a =
     (case agents w a of
        Some (Animal x) \<Rightarrow>
          (case cell x of
             None \<Rightarrow> Inl (AttributeError, w)
           | Some c \<Rightarrow>
               (case find (is_grass_patch w) (cell_agents w c) of
                  None \<Rightarrow> Inl (StopIteration, w)
                | Some gp \<Rightarrow>
                    if is_grown_patch w gp then
                      set_fully_grown
                        (w\<lparr>agents := (agents w)
                              (a \<mapsto> Animal (x\<lparr>energy := energy x + energy_from_food x\<rparr>))\<rparr>)
                        gp False
                    else Inr w))
      | _ \<Rightarrow> Inl (NoSuchAgent, w))"

text \<open>\<^verbatim>\<open>Sheep.move\<close>\<close>

definition Sheep_move :: "world \<Rightarrow> nat \<Rightarrow> world result" where
  "Sheep_move w a =
     (case agents w a of
        Some (Animal x) \<Rightarrow>
          (case cell x of
             None \<Rightarrow> Inl (AttributeError, w)
           | Some c \<Rightarrow>
               (let cells_without_wolves =
                      filter (\<lambda>c'. \<not> list_ex (is_wolf w) (cell_agents w c')) (neighborhood w c)
                in if length cells_without_wolves = 0 then Inr w
                   else
                     (let cells_with_grass =
                            filter (\<lambda>c'. list_ex (is_grown_patch w) (cell_agents w c'))
                              cells_without_wolves;
                          target_cells =
                            (if length cells_with_grass > 0 then cells_with_grass
                             else cells_without_wolves)
                      in case select_random_cell target_cells w of
                           Inl e \<Rightarrow> Inl e
                         | Inr (c', w1) \<Rightarrow> Inr (set_cell w1 a x (Some c')))))
      | _ \<Rightarrow> Inl (NoSuchAgent, w))"

subsection \<open>\<^verbatim>\<open>Wolf\<close>\<close>

text \<open>\<^verbatim>\<open>Wolf.feed\<close>\<close>

definition Wolf_feed :: "world \<Rightarrow> nat \<Rightarrow> world result" where
  "Wolf_feed w a =
     (case agents w a of
        Some (Animal x) \<Rightarrow>
          (case cell x of
             None \<Rightarrow> Inl (AttributeError, w)
           | Some c \<Rightarrow>
               (let sheep = filter (is_sheep w) (cell_agents w c)
                in if sheep \<noteq> [] then
                     (case random_choice sheep w of
                        Inl e \<Rightarrow> Inl e
                      | Inr (sheep_to_eat, w1) \<Rightarrow>
                          Agent_remove
                            (w1\<lparr>agents := (agents w1)
                                  (a \<mapsto> Animal (x\<lparr>energy := energy x + energy_from_food x\<rparr>))\<rparr>)
                            sheep_to_eat)
                   else Inr w))
      | _ \<Rightarrow> Inl (NoSuchAgent, w))"

text \<open>\<^verbatim>\<open>Wolf.move\<close>\<close>

definition Wolf_move :: "world \<Rightarrow> nat \<Rightarrow> world result" where
  "Wolf_move w a =
     (case agents w a of
        Some (Animal x) \<Rightarrow>
          (case cell x of
             None \<Rightarrow> Inl (AttributeError, w)
           | Some c \<Rightarrow>
               (let cells_with_sheep =
                      filter (\<lambda>c'. list_ex (is_sheep w) (cell_agents w c')) (neighborhood w c);
                    target_cells =
                      (if length cells_with_sheep > 0 then cells_with_sheep
                       else neighborhood w c)
                in case select_random_cell target_cells w of
                     Inl e \<Rightarrow> Inl e
                   | Inr (c', w1) \<Rightarrow> Inr (set_cell w1 a x (Some c'))))
      | _ \<Rightarrow> Inl (NoSuchAgent, w))"

subsection \<open>\<^verbatim>\<open>Animal.step\<close>\<close>

text \<open>\<^verbatim>\<open>self.move()\<close> and \<^verbatim>\<open>self.feed()\<close> dispatch on the class of the animal.\<close>

definition Animal_move :: "world \<Rightarrow> nat \<Rightarrow> world result" where
  "Animal_move w a =
     (case agents w a of
        Some (Animal x) \<Rightarrow>
          (case variant x of Sheep \<Rightarrow> Sheep_move w a | Wolf \<Rightarrow> Wolf_move w a)
      | _ \<Rightarrow> Inl (NoSuchAgent, w))"

definition Animal_feed :: "world \<Rightarrow> nat \<Rightarrow> world result" where
  "Animal_feed w a =
     (case agents w a of
        Some (Animal x) \<Rightarrow>
          (case variant x of Sheep \<Rightarrow> Sheep_feed w a | Wolf \<Rightarrow> Wolf_feed w a)
      | _ \<Rightarrow> Inl (NoSuchAgent, w))"

text \<open>\<^verbatim>\<open>self.energy -= 1\<close>\<close>

definition metabolize :: "world \<Rightarrow> nat \<Rightarrow> world result" where
  "metabolize w a =
     (case agents w a of
        Some (Animal x) \<Rightarrow>
          Inr (w\<lparr>agents := (agents w)(a \<mapsto> Animal (x\<lparr>energy := energy x - 1\<rparr>))\<rparr>)
      | _ \<Rightarrow> Inl (NoSuchAgent, w))"

text \<open>
  The last statement of \<^verbatim>\<open>step\<close>: \<^verbatim>\<open>if self.energy < 0: self.remove()\<close>,
  \<^verbatim>\<open>elif self.random.random() < self.p_reproduce: self.spawn_offspring()\<close>. The draw is
  taken in the \<^verbatim>\<open>elif\<close> condition only.
\<close>

definition resolve :: "world \<Rightarrow> nat \<Rightarrow> world result" where
  "resolve w a =
     (case agents w a of
        Some (Animal x) \<Rightarrow>
          if energy x < 0 then Agent_remove w a
          else (case random_random w of
                  (u, w1) \<Rightarrow> if u < p_reproduce x then spawn_offspring w1 a else Inr w1)
      | _ \<Rightarrow> Inl (NoSuchAgent, w))"

definition Animal_step :: "world \<Rightarrow> nat \<Rightarrow> world result" where
  "Animal_step w a =
     (case Animal_move w a of
        Inl e \<Rightarrow> Inl e
      | Inr w1 \<Rightarrow>
          (case metabolize w1 a of
             Inl e \<Rightarrow> Inl e
           | Inr w2 \<Rightarrow>
               (case Animal_feed w2 a of
                  Inl e \<Rightarrow> Inl e
                | Inr w3 \<Rightarrow> resolve w3 a)))"

subsection \<open>The clock and the firing of events\<close>

text \<open>
  Modelled from the spec: \<^verbatim>\<open>fire_due\<close> (section 4.2) takes every event with a due time
  up to the current time out of the queue and applies them in order of due time, events
  of the same due time in order of insertion. Applying an event of this module is the
  call \<^verbatim>\<open>setattr(patch, "fully_grown", True)\<close>, which goes through the setter.
\<close>

fun apply_events :: "(int \<times> nat) list \<Rightarrow> world \<Rightarrow> world result" where
  "apply_events [] w = Inr w"
| "apply_events (e # es) w =
     (case set_fully_grown w (snd e) True of
        Inl err \<Rightarrow> Inl err
      | Inr w1 \<Rightarrow> apply_events es w1)"

definition fire_due :: "world \<Rightarrow> world result" where
  "fire_due w =
     apply_events (sort_key fst (filter (\<lambda>e. fst e \<le> time w) (events w)))
       (w\<lparr>events := filter (\<lambda>e. \<not> fst e \<le> time w) (events w)\<rparr>)"

text \<open>
  Modelled from the spec: the start of a tick (section 2, control flow, and section 5,
  ordering guarantee (a)): the clock advances by one, then all events due at the new
  time fire, before any agent acts.
\<close>

definition advance_time :: "world \<Rightarrow> world result" where
  "advance_time w = fire_due (w\<lparr>time := time w + 1\<rparr>)"

subsection \<open>Histories\<close>

text \<open>
  What can happen to a world: a tick starts, an agent is created, an animal takes its
  whole step or one of the four parts of it. A history is a list of such actions, run
  from left to right until one of them raises.
\<close>

datatype action =
    Tick
  | New_patch int int nat
  | New_animal kind real real real "nat option"
  | Move nat
  | Metabolize nat
  | Feed nat
  | Resolve nat
  | Step nat

fun perform :: "action \<Rightarrow> world \<Rightarrow> world result" where
  "perform Tick w = advance_time w"
| "perform (New_patch countdown regrowth c) w = GrassPatch_init w countdown regrowth c"
| "perform (New_animal k e p f c) w = Inr (Animal_init w k e p f c)"
| "perform (Move a) w = Animal_move w a"
| "perform (Metabolize a) w = metabolize w a"
| "perform (Feed a) w = Animal_feed w a"
| "perform (Resolve a) w = resolve w a"
| "perform (Step a) w = Animal_step w a"

fun run :: "action list \<Rightarrow> world \<Rightarrow> world result" where
  "run [] w = Inr w"
| "run (x # xs) w =
     (case perform x w of
        Inl err \<Rightarrow> Inl err
      | Inr w1 \<Rightarrow> run xs w1)"

text \<open>The agent that acts in an action, if the action is an agent's.\<close>

fun actor :: "action \<Rightarrow> nat option" where
  "actor (Move a) = Some a"
| "actor (Metabolize a) = Some a"
| "actor (Feed a) = Some a"
| "actor (Resolve a) = Some a"
| "actor (Step a) = Some a"
| "actor _ = None"

text \<open>The world before anything is created, on a given grid, seed and starting time.\<close>

definition empty_world :: "(nat \<Rightarrow> nat list) \<Rightarrow> nat stream \<Rightarrow> int \<Rightarrow> world" where
  "empty_world nbh seed t =
     \<lparr>agents = (\<lambda>_. None), registered = {}, next_id = 0, cell_agents = (\<lambda>_. []),
      neighborhood = nbh, rng = seed, time = t, events = []\<rparr>"

text \<open>The due times of the pending events that target a patch.\<close>

definition pending :: "world \<Rightarrow> nat \<Rightarrow> int list" where
  "pending w p = map fst (filter (\<lambda>e. snd e = p) (events w))"

subsection \<open>Well-formed worlds\<close>

text \<open>
  The invariant of cells and agents (spec, section 3): an animal among the occupants of
  a cell records that cell as its own.
\<close>

definition occupancy_ok :: "world \<Rightarrow> bool" where
  "occupancy_ok w =
     (\<forall>c i y. i \<in> set (cell_agents w c) \<and> agents w i = Some (Animal y) \<longrightarrow> cell y = Some c)"

text \<open>An agent that is neither registered with the model nor an occupant of any cell.\<close>

definition gone :: "world \<Rightarrow> nat \<Rightarrow> bool" where
  "gone w s = (s \<notin> registered w \<and> (\<forall>c. s \<notin> set (cell_agents w c)))"

text \<open>The grass patches of a world, and whether a patch is not grown.\<close>

definition patches :: "world \<Rightarrow> nat \<Rightarrow> grass_patch option" where
  "patches w p = (case agents w p of Some (GrassPatch g) \<Rightarrow> Some g | _ \<Rightarrow> None)"

definition growing :: "world \<Rightarrow> nat \<Rightarrow> bool" where
  "growing w p = (case agents w p of Some (GrassPatch g) \<Rightarrow> \<not> fully_grown g | _ \<Rightarrow> False)"

text \<open>
  Ids are given out in order, so every object has an id below the next one; and every
  pending event is the only one of its target, a grass patch that is not grown.
\<close>

definition fresh :: "world \<Rightarrow> bool" where
  "fresh w = (\<forall>i. agents w i \<noteq> None \<longrightarrow> i < next_id w)"

definition grass_ok :: "world \<Rightarrow> bool" where
  "grass_ok w =
     (fresh w \<and> (\<forall>p. pending w p \<noteq> [] \<longrightarrow> growing w p \<and> length (pending w p) = 1))"

text \<open>The grass and the clock are the same in two worlds.\<close>

definition grass_same :: "world \<Rightarrow> world \<Rightarrow> bool" where
  "grass_same w w' =
     (patches w' = patches w \<and> events w' = events w \<and> time w' = time w)"

subsection \<open>Example worlds\<close>

text \<open>
  Three cells (2, 3 and 4), each the neighbour of the other two. Cell 2 holds a fully
  grown patch (agent 10) and a sheep (agent 13); cell 3 holds a patch that regrows at
  time 2 (agent 11), a wolf (agent 14) and a sheep (agent 15); cell 4 holds a fully grown
  patch (agent 12).
\<close>

definition meadow :: world where
  "meadow =
     \<lparr>agents = (\<lambda>_. None)
        (10 \<mapsto> GrassPatch \<lparr>fully_grown = True, grass_regrowth_time = 3, patch_cell = 2\<rparr>,
         11 \<mapsto> GrassPatch \<lparr>fully_grown = False, grass_regrowth_time = 3, patch_cell = 3\<rparr>,
         12 \<mapsto> GrassPatch \<lparr>fully_grown = True, grass_regrowth_time = 3, patch_cell = 4\<rparr>,
         13 \<mapsto> Animal \<lparr>variant = Sheep, energy = 8, p_reproduce = 0,
                         energy_from_food = 4, cell = Some 2\<rparr>,
         14 \<mapsto> Animal \<lparr>variant = Wolf, energy = 5, p_reproduce = 1,
                         energy_from_food = 4, cell = Some 3\<rparr>,
         15 \<mapsto> Animal \<lparr>variant = Sheep, energy = 5, p_reproduce = 0,
                         energy_from_food = 4, cell = Some 3\<rparr>),
      registered = {10, 11, 12, 13, 14, 15},
      next_id = 16,
      cell_agents = (\<lambda>_. [])(2 := [10, 13], 3 := [11, 14, 15], 4 := [12]),
      neighborhood = (\<lambda>_. [])(2 := [3, 4], 3 := [2, 4], 4 := [2, 3]),
      rng = sconst 0,
      time = 0,
      events = [(2, 11)]\<rparr>"

text \<open>
  A grid of one cell (cell 0), which has no neighbour, with a wolf (agent 2) and a sheep
  (agent 3) on it, and no grass.
\<close>

definition single_cell :: world where
  "single_cell =
     \<lparr>agents = (\<lambda>_. None)
        (2 \<mapsto> Animal \<lparr>variant = Wolf, energy = 5, p_reproduce = 0,
                        energy_from_food = 4, cell = Some 0\<rparr>,
         3 \<mapsto> Animal \<lparr>variant = Sheep, energy = 5, p_reproduce = 0,
                        energy_from_food = 4, cell = Some 0\<rparr>),
      registered = {2, 3},
      next_id = 4,
      cell_agents = (\<lambda>_. [])(0 := [2, 3]),
      neighborhood = (\<lambda>_. []),
      rng = sconst 0,
      time = 0,
      events = []\<rparr>"

text \<open>
  A pasture of one cell (cell 0), which has no neighbour, with one grass patch (agent 0)
  of regrowth time \<open>r\<close> and one sheep that never reproduces (agent 1, energy gained per
  feeding 4): whether the patch is grown, the energy of the sheep, the time and the
  pending events are the parameters. The history \<open>sowing r\<close> creates the fully grown
  patch and the sheep with energy 8 in the empty world at time 0 and starts tick 1.
\<close>

definition no_neighbours :: "nat \<Rightarrow> nat list" where
  "no_neighbours c = []"

definition paddock :: "bool \<Rightarrow> real \<Rightarrow> int \<Rightarrow> (int \<times> nat) list \<Rightarrow> int \<Rightarrow> world" where
  "paddock grown e t es r =
     \<lparr>agents = (\<lambda>_. None)
        (0 \<mapsto> GrassPatch \<lparr>fully_grown = grown, grass_regrowth_time = r, patch_cell = 0\<rparr>,
         Suc 0 \<mapsto> Animal \<lparr>variant = Sheep, energy = e, p_reproduce = 0,
                            energy_from_food = 4, cell = Some 0\<rparr>),
      registered = {0, Suc 0},
      next_id = 2,
      cell_agents = (\<lambda>_. [])(0 := [0, Suc 0]),
      neighborhood = no_neighbours,
      rng = sconst 0,
      time = t,
      events = es\<rparr>"

definition sowing :: "int \<Rightarrow> action list" where
  "sowing r = [New_patch 0 r 0, New_animal Sheep 8 0 4 (Some 0), Tick]"

text \<open>
  Three cells in a row, 0 - 2 - 3, without grass: a sheep (agent 4) on cell 0, a wolf
  (agent 5) on cell 2, and a starving wolf that would always reproduce (agent 6) on
  cell 3.
\<close>

definition corridor :: world where
  "corridor =
     \<lparr>agents = (\<lambda>_. None)
        (4 \<mapsto> Animal \<lparr>variant = Sheep, energy = 5, p_reproduce = 0,
                        energy_from_food = 4, cell = Some 0\<rparr>,
         5 \<mapsto> Animal \<lparr>variant = Wolf, energy = 5, p_reproduce = 0,
                        energy_from_food = 4, cell = Some 2\<rparr>,
         6 \<mapsto> Animal \<lparr>variant = Wolf, energy = 0, p_reproduce = 1,
                        energy_from_food = 4, cell = Some 3\<rparr>),
      registered = {4, 5, 6},
      next_id = 7,
      cell_agents = (\<lambda>_. [])(0 := [4], 2 := [5], 3 := [6]),
      neighborhood = (\<lambda>_. [])(0 := [2], 2 := [0, 3], 3 := [2]),
      rng = sconst 0,
      time = 0,
      events = []\<rparr>"

text \<open>
  A grid of one cell (cell 0) without grass, with a starving sheep that would always
  reproduce (agent 2).
\<close>

definition bare_cell :: world where
  "bare_cell =
     \<lparr>agents = (\<lambda>_. None)
        (2 \<mapsto> Animal \<lparr>variant = Sheep, energy = 0, p_reproduce = 1,
                        energy_from_food = 4, cell = Some 0\<rparr>),
      registered = {2},
      next_id = 3,
      cell_agents = (\<lambda>_. [])(0 := [2]),
      neighborhood = (\<lambda>_. []),
      rng = sconst 0,
      time = 0,
      events = []\<rparr>"

section \<open>Properties\<close>

subsection \<open>Facts about the example worlds\<close>

lemma meadow_simps:
  "agents meadow 10 = Some (GrassPatch \<lparr>fully_grown = True, grass_regrowth_time = 3, patch_cell = 2\<rparr>)"
  "agents meadow 11 = Some (GrassPatch \<lparr>fully_grown = False, grass_regrowth_time = 3, patch_cell = 3\<rparr>)"
  "agents meadow 12 = Some (GrassPatch \<lparr>fully_grown = True, grass_regrowth_time = 3, patch_cell = 4\<rparr>)"
  "agents meadow 13 = Some (Animal \<lparr>variant = Sheep, energy = 8, p_reproduce = 0,
                        energy_from_food = 4, cell = Some 2\<rparr>)"
  "agents meadow 14 = Some (Animal \<lparr>variant = Wolf, energy = 5, p_reproduce = 1,
                        energy_from_food = 4, cell = Some 3\<rparr>)"
  "agents meadow 15 = Some (Animal \<lparr>variant = Sheep, energy = 5, p_reproduce = 0,
                        energy_from_food = 4, cell = Some 3\<rparr>)"
  "next_id meadow = 16" "time meadow = 0" "events meadow = [(2, 11)]"
  "cell_agents meadow 2 = [10, 13]" "cell_agents meadow 3 = [11, 14, 15]"
  "cell_agents meadow 4 = [12]"
  "neighborhood meadow 2 = [3, 4]" "neighborhood meadow 3 = [2, 4]"
  "rng meadow = sconst 0" "registered meadow = {10, 11, 12, 13, 14, 15}"
  by (simp_all add: meadow_def)

lemma meadow_kinds:
  "is_grass_patch meadow 10" "is_grass_patch meadow 11" "is_grass_patch meadow 12"
  "\<not> is_grass_patch meadow 13" "\<not> is_grass_patch meadow 14" "\<not> is_grass_patch meadow 15"
  "is_sheep meadow 13" "is_sheep meadow 15" "\<not> is_sheep meadow 14"
  "\<not> is_sheep meadow 10" "\<not> is_sheep meadow 11" "\<not> is_sheep meadow 12"
  "is_wolf meadow 14" "\<not> is_wolf meadow 13" "\<not> is_wolf meadow 15"
  "\<not> is_wolf meadow 10" "\<not> is_wolf meadow 11" "\<not> is_wolf meadow 12"
  "is_grown_patch meadow 10" "\<not> is_grown_patch meadow 11" "is_grown_patch meadow 12"
  "\<not> is_grown_patch meadow 13" "\<not> is_grown_patch meadow 14" "\<not> is_grown_patch meadow 15"
  by (simp_all add: is_grass_patch_def is_sheep_def is_wolf_def is_grown_patch_def meadow_simps)

lemma corridor_simps:
  "agents corridor 4 = Some (Animal \<lparr>variant = Sheep, energy = 5, p_reproduce = 0,
                        energy_from_food = 4, cell = Some 0\<rparr>)"
  "agents corridor 5 = Some (Animal \<lparr>variant = Wolf, energy = 5, p_reproduce = 0,
                        energy_from_food = 4, cell = Some 2\<rparr>)"
  "agents corridor 6 = Some (Animal \<lparr>variant = Wolf, energy = 0, p_reproduce = 1,
                        energy_from_food = 4, cell = Some 3\<rparr>)"
  "cell_agents corridor 0 = [4]" "cell_agents corridor 2 = [5]" "cell_agents corridor 3 = [6]"
  "neighborhood corridor 0 = [2]" "neighborhood corridor 2 = [0, 3]"
  "neighborhood corridor 3 = [2]"
  "rng corridor = sconst 0" "next_id corridor = 7" "registered corridor = {4, 5, 6}"
  by (simp_all add: corridor_def)

lemma corridor_kinds:
  "is_sheep corridor 4" "\<not> is_sheep corridor 5" "\<not> is_sheep corridor 6"
  "\<not> is_wolf corridor 4" "is_wolf corridor 5" "is_wolf corridor 6"
  "\<not> is_grown_patch corridor 4" "\<not> is_grown_patch corridor 5" "\<not> is_grown_patch corridor 6"
  by (simp_all add: is_sheep_def is_wolf_def is_grown_patch_def corridor_simps)

lemma single_cell_simps:
  "agents single_cell 2 = Some (Animal \<lparr>variant = Wolf, energy = 5, p_reproduce = 0,
                        energy_from_food = 4, cell = Some 0\<rparr>)"
  "agents single_cell 3 = Some (Animal \<lparr>variant = Sheep, energy = 5, p_reproduce = 0,
                        energy_from_food = 4, cell = Some 0\<rparr>)"
  "cell_agents single_cell 0 = [2, 3]" "neighborhood single_cell 0 = []"
  "rng single_cell = sconst 0"
  by (simp_all add: single_cell_def)

lemma cell_of:
  "cell \<lparr>variant = k, energy = e, p_reproduce = p, energy_from_food = f, cell = c\<rparr> = c"
  by simp

subsection \<open>The framework operations\<close>

lemma select_random_cell_simps:
  "select_random_cell [] w = Inl (EmptySelectionError, w)"
  "cells \<noteq> [] \<Longrightarrow> select_random_cell cells w
     = Inr (cells ! (shd (rng w) mod length cells), w\<lparr>rng := stl (rng w)\<rparr>)"
  by (simp_all add: select_random_cell_def random_choice_def)

lemma pick_in_range: "xs \<noteq> [] \<Longrightarrow> xs ! (n mod length xs) \<in> set xs"
  by simp

lemma set_cell_fields:
  "agents (set_cell w i x c) = (agents w)(i \<mapsto> Animal (x\<lparr>cell := c\<rparr>))"
  "registered (set_cell w i x c) = registered w"
  "next_id (set_cell w i x c) = next_id w"
  "neighborhood (set_cell w i x c) = neighborhood w"
  "rng (set_cell w i x c) = rng w"
  "time (set_cell w i x c) = time w"
  "events (set_cell w i x c) = events w"
  by (simp_all add: set_cell_def vacate_def place_def Let_def split: option.splits)

lemma set_cell_occupants:
  "cell_agents (set_cell w i x (Some c')) c' =
     (if cell x = Some c' then removeAll i (cell_agents w c') else cell_agents w c') @ [i]"
  "cell_agents (set_cell w i x None) c' =
     (if cell x = Some c' then removeAll i (cell_agents w c') else cell_agents w c')"
  by (auto simp: set_cell_def vacate_def place_def Let_def split: option.splits)

lemma find_patch:
  "find (is_grass_patch w) xs = Some gp \<Longrightarrow> \<exists>g. agents w gp = Some (GrassPatch g)"
  by (auto simp: find_Some_iff is_grass_patch_def split: option.splits agent.splits)

lemma find_None_list_ex: "(find P xs = None) = (\<not> list_ex P xs)"
  by (auto simp: find_None_iff list_ex_iff)

subsection \<open>Reproduction\<close>

text \<open>
  C2. An animal with energy \<open>E\<close> that reproduces holds exactly \<open>E / 2\<close> afterwards, and so
  does its offspring, so that the two together hold \<open>E\<close>; the offspring is a new
  registered agent of the same class as the parent, on the same cell (and among the
  occupants of that cell), with the same \<^verbatim>\<open>p_reproduce\<close> and the same
  \<^verbatim>\<open>energy_from_food\<close>. Energy is a real number here, so the halving is exact.
\<close>

theorem spawn_offspring_splits_energy:
  assumes "agents w a = Some (Animal x)"
  shows "\<exists>w' parent child.
           spawn_offspring w a = Inr w'
         \<and> agents w' a = Some (Animal parent)
         \<and> agents w' (next_id w) = Some (Animal child)
         \<and> next_id w \<in> registered w'
         \<and> energy parent = energy x / 2
         \<and> energy child = energy x / 2
         \<and> energy parent + energy child = energy x
         \<and> variant child = variant x
         \<and> cell child = cell x
         \<and> p_reproduce child = p_reproduce x
         \<and> energy_from_food child = energy_from_food x
         \<and> (\<forall>c. cell x = Some c \<longrightarrow> next_id w \<in> set (cell_agents w' c))"
  using assms
  by (cases "cell x")
     (auto simp: spawn_offspring_def Animal_init_def set_cell_def place_def Let_def)

theorem spawn_offspring_splits_energy_witness:
  "\<exists>w' parent child.
     spawn_offspring meadow 13 = Inr w'
   \<and> agents w' 13 = Some (Animal parent)
   \<and> agents w' 16 = Some (Animal child)
   \<and> 16 \<in> registered w'
   \<and> energy parent = 4 \<and> energy child = 4
   \<and> variant child = Sheep \<and> cell child = Some 2
   \<and> p_reproduce child = 0 \<and> energy_from_food child = 4
   \<and> 16 \<in> set (cell_agents w' 2)"
  using spawn_offspring_splits_energy [OF meadow_simps(4)]
  by (auto simp: meadow_simps)

subsection \<open>Sheep and grass\<close>

text \<open>
  C6. A sheep stands on a cell whose first grass patch is \<open>gp\<close>. If the patch is fully
  grown, \<^verbatim>\<open>Sheep.feed\<close> leaves the sheep with \<^verbatim>\<open>energy_from_food\<close> more energy and the
  patch not grown (this is the state the call leaves behind whether or not the
  scheduling of the regrowth then succeeds; it succeeds when the regrowth time is not
  negative, and then queues the regrowth event). If the patch is not grown, the call
  returns normally and the world is unchanged: neither the energy nor the patch
  changes, and nothing is raised.
\<close>

theorem Sheep_feed_eats_grown_grass_only:
  assumes "agents w a = Some (Animal x)"
      and "cell x = Some c"
      and "find (is_grass_patch w) (cell_agents w c) = Some gp"
      and "agents w gp = Some (GrassPatch g)"
  shows "(fully_grown g \<longrightarrow>
            agents (state_after (Sheep_feed w a)) a
              = Some (Animal (x\<lparr>energy := energy x + energy_from_food x\<rparr>))
          \<and> agents (state_after (Sheep_feed w a)) gp
              = Some (GrassPatch (g\<lparr>fully_grown := False\<rparr>))
          \<and> (0 \<le> grass_regrowth_time g \<longrightarrow>
               (\<exists>w'. Sheep_feed w a = Inr w'
                   \<and> events w' = events w @ [(time w + grass_regrowth_time g, gp)])))
       \<and> (\<not> fully_grown g \<longrightarrow> Sheep_feed w a = Inr w)"
  using assms
  by (auto simp: Sheep_feed_def is_grown_patch_def set_fully_grown_def
      schedule_event_relative_def state_after_def Let_def)

theorem Sheep_feed_eats_grown_grass_only_witness:
  "agents (state_after (Sheep_feed meadow 13)) 13
     = Some (Animal \<lparr>variant = Sheep, energy = 12, p_reproduce = 0,
                     energy_from_food = 4, cell = Some 2\<rparr>)
   \<and> agents (state_after (Sheep_feed meadow 13)) 10
     = Some (GrassPatch \<lparr>fully_grown = False, grass_regrowth_time = 3, patch_cell = 2\<rparr>)
   \<and> (\<exists>w'. Sheep_feed meadow 13 = Inr w' \<and> events w' = [(2, 11), (3, 10)])
   \<and> Sheep_feed meadow 15 = Inr meadow"
proof -
  have f0: "find (is_grass_patch meadow) (cell_agents meadow 2) = Some 10"
    and f1: "find (is_grass_patch meadow) (cell_agents meadow 3) = Some 11"
    by (simp_all add: meadow_simps meadow_kinds)
  have c0: "cell \<lparr>variant = Sheep, energy = 8, p_reproduce = 0,
                        energy_from_food = 4, cell = Some 2\<rparr> = Some 2"
    and c1: "cell \<lparr>variant = Sheep, energy = 5, p_reproduce = 0,
                        energy_from_food = 4, cell = Some 3\<rparr> = Some 3" by simp_all
  from Sheep_feed_eats_grown_grass_only [OF meadow_simps(4) c0 f0 meadow_simps(1)]
       Sheep_feed_eats_grown_grass_only [OF meadow_simps(6) c1 f1 meadow_simps(2)]
  show ?thesis by (simp add: meadow_simps)
qed

text \<open>
  C8. On a cell without a grass patch \<^verbatim>\<open>Sheep.feed\<close> raises \<^verbatim>\<open>StopIteration\<close> (from
  \<^verbatim>\<open>next\<close> on a generator that yields nothing) and the world is as it was: the call
  does not go on. On a cell with a grass patch that error is never raised, and the call
  returns normally: always when the first patch of the cell is not grown, and when it
  is grown for a regrowth time that the scheduler accepts as a delay (not negative; a
  negative regrowth delay is the other corrupted setup of the spec, section 7).
\<close>

theorem Sheep_feed_without_grass_fails:
  assumes "agents w a = Some (Animal x)"
      and "cell x = Some c"
  shows "(\<not> list_ex (is_grass_patch w) (cell_agents w c) \<longrightarrow>
            Sheep_feed w a = Inl (StopIteration, w))
       \<and> (list_ex (is_grass_patch w) (cell_agents w c) \<longrightarrow>
            (\<exists>gp g. find (is_grass_patch w) (cell_agents w c) = Some gp
                 \<and> agents w gp = Some (GrassPatch g)
                 \<and> (\<forall>w'. Sheep_feed w a \<noteq> Inl (StopIteration, w'))
                 \<and> (\<not> fully_grown g \<or> 0 \<le> grass_regrowth_time g \<longrightarrow>
                       (\<exists>w'. Sheep_feed w a = Inr w'))))"
proof (cases "find (is_grass_patch w) (cell_agents w c)")
  case None
  with assms show ?thesis
    by (simp add: Sheep_feed_def find_None_list_ex [symmetric])
next
  case (Some gp)
  then obtain g where g: "agents w gp = Some (GrassPatch g)"
    using find_patch by blast
  from Some have "list_ex (is_grass_patch w) (cell_agents w c)"
    using find_None_list_ex [of "is_grass_patch w" "cell_agents w c"] by simp
  with assms Some g show ?thesis
    by (auto simp: Sheep_feed_def is_grown_patch_def set_fully_grown_def
        schedule_event_relative_def Let_def)
qed

theorem Sheep_feed_without_grass_fails_witness:
  "Sheep_feed single_cell 3 = Inl (StopIteration, single_cell)
   \<and> (\<exists>w'. Sheep_feed meadow 13 = Inr w')
   \<and> Sheep_feed meadow 15 = Inr meadow"
proof -
  have s: "agents single_cell 3 = Some (Animal \<lparr>variant = Sheep, energy = 5, p_reproduce = 0,
                        energy_from_food = 4, cell = Some 0\<rparr>)"
    and n: "\<not> list_ex (is_grass_patch single_cell) (cell_agents single_cell 0)"
    by (simp_all add: single_cell_def is_grass_patch_def)
  have m: "list_ex (is_grass_patch meadow) (cell_agents meadow 2)"
    and fm: "find (is_grass_patch meadow) (cell_agents meadow 2) = Some 10"
    and m3: "list_ex (is_grass_patch meadow) (cell_agents meadow 3)"
    and fm3: "find (is_grass_patch meadow) (cell_agents meadow 3) = Some 11"
    by (simp_all add: meadow_simps meadow_kinds)
  have c: "\<And>k e n. cell \<lparr>variant = k, energy = e, p_reproduce = 0,
                        energy_from_food = 4, cell = Some n\<rparr> = Some n" by simp
  from Sheep_feed_without_grass_fails [OF s c] n
  have 1: "Sheep_feed single_cell 3 = Inl (StopIteration, single_cell)" by simp
  from Sheep_feed_without_grass_fails [OF meadow_simps(4) c] m fm
  have 2: "\<exists>w'. Sheep_feed meadow 13 = Inr w'" by (simp add: meadow_simps meadow_kinds)
  from Sheep_feed_without_grass_fails [OF meadow_simps(6) c] m3 fm3
  have "\<exists>w'. Sheep_feed meadow 15 = Inr w'" by (simp add: meadow_simps meadow_kinds)
  moreover have "Sheep_feed meadow 15 = Inr meadow \<or> isl (Sheep_feed meadow 15)"
    by (simp add: Sheep_feed_def meadow_simps meadow_kinds)
  ultimately have 3: "Sheep_feed meadow 15 = Inr meadow" by auto
  from 1 2 3 show ?thesis by simp
qed

text \<open>
  C5. A sheep on cell \<open>c\<close>: \<open>safe\<close> are the neighbour cells of \<open>c\<close> without a wolf, \<open>grassy\<close>
  those of them with a fully grown patch. When there is no safe cell, \<^verbatim>\<open>Sheep.move\<close>
  returns normally and leaves the world unchanged. Otherwise the sheep moves to a
  neighbour cell that holds no wolf: the cell at the drawn index among the grassy cells
  when there are any, among all safe cells otherwise; one draw is consumed. The choice
  is uniform in that the index is the draw of the random source below the number of
  candidates.
\<close>

theorem Sheep_move_avoids_wolves:
  assumes "agents w a = Some (Animal x)"
      and "cell x = Some c"
      and "safe = filter (\<lambda>c'. \<not> list_ex (is_wolf w) (cell_agents w c')) (neighborhood w c)"
      and "grassy = filter (\<lambda>c'. list_ex (is_grown_patch w) (cell_agents w c')) safe"
      and "targets = (if grassy \<noteq> [] then grassy else safe)"
  shows "(safe = [] \<longrightarrow> Sheep_move w a = Inr w)
       \<and> (safe \<noteq> [] \<longrightarrow>
            (\<exists>c' w'. Sheep_move w a = Inr w'
                 \<and> c' = targets ! (shd (rng w) mod length targets)
                 \<and> c' \<in> set (neighborhood w c)
                 \<and> \<not> list_ex (is_wolf w) (cell_agents w c')
                 \<and> (grassy \<noteq> [] \<longrightarrow> list_ex (is_grown_patch w) (cell_agents w c'))
                 \<and> agents w' a = Some (Animal (x\<lparr>cell := Some c'\<rparr>))
                 \<and> a \<in> set (cell_agents w' c')
                 \<and> rng w' = stl (rng w)))"
proof (cases "safe = []")
  case True
  with assms show ?thesis by (simp add: Sheep_move_def)
next
  case False
  then have t: "targets \<noteq> []" using assms(5) by simp
  let ?c = "targets ! (shd (rng w) mod length targets)"
  have mem: "?c \<in> set targets" using t by simp
  have sub: "set targets \<subseteq> set safe" using assms(4,5) by auto
  have m: "Sheep_move w a = Inr (set_cell (w\<lparr>rng := stl (rng w)\<rparr>) a x (Some ?c))"
    using assms False t
    by (simp add: Sheep_move_def Let_def select_random_cell_simps)
  have 1: "?c \<in> set (neighborhood w c)"
    and 2: "\<not> list_ex (is_wolf w) (cell_agents w ?c)"
    using mem sub assms(3) by auto
  have 3: "grassy \<noteq> [] \<longrightarrow> list_ex (is_grown_patch w) (cell_agents w ?c)"
    using mem assms(4,5) by auto
  show ?thesis using False m 1 2 3
    by (simp add: set_cell_fields set_cell_occupants)
qed

theorem Sheep_move_avoids_wolves_witness:
  "Sheep_move corridor 4 = Inr corridor
   \<and> (\<exists>w'. Sheep_move meadow 13 = Inr w'
         \<and> agents w' 13 = Some (Animal \<lparr>variant = Sheep, energy = 8, p_reproduce = 0,
                                         energy_from_food = 4, cell = Some 4\<rparr>)
         \<and> 13 \<in> set (cell_agents w' 4))"
proof -
  have "Sheep_move corridor 4 = Inr corridor"
    using Sheep_move_avoids_wolves [OF corridor_simps(1) cell_of refl refl refl]
    by (simp add: corridor_simps corridor_kinds)
  moreover have "\<exists>w'. Sheep_move meadow 13 = Inr w'
         \<and> agents w' 13 = Some (Animal \<lparr>variant = Sheep, energy = 8, p_reproduce = 0,
                                         energy_from_food = 4, cell = Some 4\<rparr>)
         \<and> 13 \<in> set (cell_agents w' 4)"
    using Sheep_move_avoids_wolves [OF meadow_simps(4) cell_of refl refl refl]
    by (auto simp: meadow_simps meadow_kinds)
  ultimately show ?thesis by simp
qed

subsection \<open>Wolves\<close>

text \<open>
  \<^verbatim>\<open>Wolf.move\<close> on any cell. With at least one neighbour cell, the wolf moves to the cell
  at the drawn index among the neighbour cells that hold a sheep when there are any,
  and among all neighbour cells otherwise: no cell is excluded, whether it holds a wolf
  or not. Without neighbour cells the selection is from an empty collection and raises.
\<close>

theorem Wolf_move_prefers_sheep:
  assumes "agents w a = Some (Animal x)"
      and "cell x = Some c"
      and "with_sheep = filter (\<lambda>c'. list_ex (is_sheep w) (cell_agents w c')) (neighborhood w c)"
      and "targets = (if with_sheep \<noteq> [] then with_sheep else neighborhood w c)"
  shows "(neighborhood w c = [] \<longrightarrow> Wolf_move w a = Inl (EmptySelectionError, w))
       \<and> (neighborhood w c \<noteq> [] \<longrightarrow>
            (\<exists>c' w'. Wolf_move w a = Inr w'
                 \<and> c' = targets ! (shd (rng w) mod length targets)
                 \<and> c' \<in> set (neighborhood w c)
                 \<and> (with_sheep \<noteq> [] \<longrightarrow> list_ex (is_sheep w) (cell_agents w c'))
                 \<and> (with_sheep = [] \<longrightarrow> targets = neighborhood w c)
                 \<and> agents w' a = Some (Animal (x\<lparr>cell := Some c'\<rparr>))
                 \<and> a \<in> set (cell_agents w' c')
                 \<and> rng w' = stl (rng w)))"
proof (cases "neighborhood w c = []")
  case True
  with assms show ?thesis
    by (simp add: Wolf_move_def Let_def select_random_cell_simps)
next
  case False
  then have t: "targets \<noteq> []" using assms(4) by simp
  let ?c = "targets ! (shd (rng w) mod length targets)"
  have mem: "?c \<in> set targets" using t by simp
  have m: "Wolf_move w a = Inr (set_cell (w\<lparr>rng := stl (rng w)\<rparr>) a x (Some ?c))"
    using assms False t
    by (simp add: Wolf_move_def Let_def select_random_cell_simps)
  have 1: "?c \<in> set (neighborhood w c)"
    using mem assms(3,4) by (auto split: if_splits)
  have 2: "with_sheep \<noteq> [] \<longrightarrow> list_ex (is_sheep w) (cell_agents w ?c)"
    using mem assms(3,4) by auto
  show ?thesis using False m 1 2 assms(4)
    by (simp add: set_cell_fields set_cell_occupants)
qed

theorem Wolf_move_prefers_sheep_examples:
  "Wolf_move single_cell 2 = Inl (EmptySelectionError, single_cell)
   \<and> (\<exists>w'. Wolf_move meadow 14 = Inr w'
         \<and> agents w' 14 = Some (Animal \<lparr>variant = Wolf, energy = 5, p_reproduce = 1,
                                         energy_from_food = 4, cell = Some 2\<rparr>))
   \<and> (\<exists>w'. Wolf_move corridor 6 = Inr w'
         \<and> agents w' 6 = Some (Animal \<lparr>variant = Wolf, energy = 0, p_reproduce = 1,
                                        energy_from_food = 4, cell = Some 2\<rparr>)
         \<and> cell_agents w' 2 = [5, 6])"
proof -
  have 1: "Wolf_move single_cell 2 = Inl (EmptySelectionError, single_cell)"
    using Wolf_move_prefers_sheep [OF single_cell_simps(1) cell_of refl refl]
    by (simp add: single_cell_simps)
  have 2: "\<exists>w'. Wolf_move meadow 14 = Inr w'
         \<and> agents w' 14 = Some (Animal \<lparr>variant = Wolf, energy = 5, p_reproduce = 1,
                                         energy_from_food = 4, cell = Some 2\<rparr>)"
    using Wolf_move_prefers_sheep [OF meadow_simps(5) cell_of refl refl]
    by (auto simp: meadow_simps meadow_kinds)
  have 3: "\<exists>w'. Wolf_move corridor 6 = Inr w'
         \<and> agents w' 6 = Some (Animal \<lparr>variant = Wolf, energy = 0, p_reproduce = 1,
                                        energy_from_food = 4, cell = Some 2\<rparr>)
         \<and> cell_agents w' 2 = [5, 6]"
    using Wolf_move_prefers_sheep [OF corridor_simps(3) cell_of refl refl]
    by (auto simp: corridor_simps corridor_kinds Wolf_move_def Let_def
        select_random_cell_simps set_cell_occupants)
  from 1 2 3 show ?thesis by simp
qed


subsection \<open>The setter of \<^verbatim>\<open>fully_grown\<close>\<close>

text \<open>
  C10. Assigning \<^verbatim>\<open>False\<close> to \<^verbatim>\<open>fully_grown\<close> makes the scheduling call with the patch's
  regrowth time whatever the patch's state was. With a regrowth time that the scheduler
  accepts (not negative), each assignment queues one more event at the current time
  plus the regrowth time: assigning \<^verbatim>\<open>False\<close> twice in a row leaves two more pending
  events for the patch. Assigning \<^verbatim>\<open>True\<close> queues nothing. \<^verbatim>\<open>Sheep.feed\<close> does not assign
  at all when the patch it finds is not grown.
\<close>

theorem set_fully_grown_schedules_unconditionally:
  assumes "agents w p = Some (GrassPatch g)"
      and "r = grass_regrowth_time g"
  shows "set_fully_grown w p False
           = schedule_event_relative
               (w\<lparr>agents := (agents w)(p \<mapsto> GrassPatch (g\<lparr>fully_grown := False\<rparr>))\<rparr>) r p
       \<and> (0 \<le> r \<longrightarrow>
            (\<exists>w1 w2. set_fully_grown w p False = Inr w1
                 \<and> agents w1 p = Some (GrassPatch (g\<lparr>fully_grown := False\<rparr>))
                 \<and> events w1 = events w @ [(time w + r, p)]
                 \<and> pending w1 p = pending w p @ [time w + r]
                 \<and> set_fully_grown w1 p False = Inr w2
                 \<and> events w2 = events w @ [(time w + r, p), (time w + r, p)]
                 \<and> pending w2 p = pending w p @ [time w + r, time w + r]))
       \<and> (\<exists>w'. set_fully_grown w p True = Inr w'
              \<and> agents w' p = Some (GrassPatch (g\<lparr>fully_grown := True\<rparr>))
              \<and> events w' = events w)
       \<and> (\<forall>a x c. agents w a = Some (Animal x) \<and> cell x = Some c
              \<and> find (is_grass_patch w) (cell_agents w c) = Some p \<and> \<not> fully_grown g
            \<longrightarrow> Sheep_feed w a = Inr w)"
  using assms
  by (auto simp: set_fully_grown_def schedule_event_relative_def pending_def Let_def
      Sheep_feed_def is_grown_patch_def)

theorem set_fully_grown_schedules_unconditionally_witness:
  "(\<exists>w1 w2. set_fully_grown meadow 11 False = Inr w1
        \<and> events w1 = [(2, 11), (3, 11)]
        \<and> pending w1 11 = [2, 3]
        \<and> set_fully_grown w1 11 False = Inr w2
        \<and> pending w2 11 = [2, 3, 3])
   \<and> (\<exists>w'. set_fully_grown meadow 11 True = Inr w' \<and> events w' = [(2, 11)])
   \<and> Sheep_feed meadow 15 = Inr meadow"
proof -
  note t = set_fully_grown_schedules_unconditionally [OF meadow_simps(2) refl]
  have f: "find (is_grass_patch meadow) (cell_agents meadow 3) = Some 11"
    by (simp add: meadow_simps meadow_kinds)
  have p: "pending meadow 11 = [2]" by (simp add: pending_def meadow_simps)
  have 1: "\<exists>w1 w2. set_fully_grown meadow 11 False = Inr w1
        \<and> events w1 = [(2, 11), (3, 11)]
        \<and> pending w1 11 = [2, 3]
        \<and> set_fully_grown w1 11 False = Inr w2
        \<and> pending w2 11 = [2, 3, 3]"
    using t [THEN conjunct2, THEN conjunct1] p by (auto simp: meadow_simps)
  have 2: "\<exists>w'. set_fully_grown meadow 11 True = Inr w' \<and> events w' = [(2, 11)]"
    using t [THEN conjunct2, THEN conjunct2, THEN conjunct1] by (auto simp: meadow_simps)
  have 3: "Sheep_feed meadow 15 = Inr meadow"
    using t [THEN conjunct2, THEN conjunct2, THEN conjunct2, rule_format, of 15 _ 3]
      meadow_simps(6) f by simp
  from 1 2 3 show ?thesis by simp
qed

subsection \<open>The step of an animal\<close>

lemma animal_update_id: "x\<lparr>energy := energy x, cell := cell x\<rparr> = x"
  by simp

lemma Animal_move_keeps:
  assumes "agents w a = Some (Animal x)" and "Animal_move w a = Inr w1"
  shows "\<exists>c'. agents w1 a = Some (Animal (x\<lparr>cell := c'\<rparr>))"
proof -
  have "agents w1 a = Some (Animal x) \<or> (\<exists>c'. agents w1 a = Some (Animal (x\<lparr>cell := c'\<rparr>)))"
    using assms
    by (cases "variant x"; cases "cell x")
       (auto simp: Animal_move_def Sheep_move_def Wolf_move_def Let_def set_cell_fields
          select_random_cell_def random_choice_def
          split: if_splits sum.splits prod.splits)
  moreover have "x\<lparr>cell := cell x\<rparr> = x" by simp
  ultimately show ?thesis by metis
qed

lemma Agent_remove_agents:
  assumes "Agent_remove w s = Inr w'" and "agents w a = Some (Animal x)"
  shows "\<exists>c'. agents w' a = Some (Animal (x\<lparr>cell := c'\<rparr>))"
proof -
  have "agents w' a = Some (Animal x) \<or> agents w' a = Some (Animal (x\<lparr>cell := None\<rparr>))"
    using assms
    by (cases "a = s")
       (auto simp: Agent_remove_def set_cell_fields split: option.splits agent.splits)
  moreover have "x\<lparr>cell := cell x\<rparr> = x" by simp
  ultimately show ?thesis by metis
qed

lemma Sheep_feed_keeps:
  assumes "agents w a = Some (Animal x)" and "Sheep_feed w a = Inr w3"
  shows "agents w3 a = Some (Animal x)
       \<or> agents w3 a = Some (Animal (x\<lparr>energy := energy x + energy_from_food x\<rparr>))"
  using assms
  by (auto simp: Sheep_feed_def set_fully_grown_def
        schedule_event_relative_def Let_def is_grown_patch_def
        split: option.splits if_splits agent.splits)

lemma Wolf_feed_keeps:
  assumes "agents w a = Some (Animal x)" and "Wolf_feed w a = Inr w3"
  shows "\<exists>e c'. agents w3 a = Some (Animal (x\<lparr>energy := e, cell := c'\<rparr>))"
proof (cases "w3 = w")
  case True
  with assms(1) animal_update_id [of x] show ?thesis by metis
next
  case False
  with assms obtain s where
    r: "Agent_remove (w\<lparr>rng := stl (rng w),
            agents := (agents w)(a \<mapsto> Animal (x\<lparr>energy := energy x + energy_from_food x\<rparr>))\<rparr>) s
         = Inr w3"
    by (auto simp: Wolf_feed_def Let_def random_choice_def
        split: option.splits if_splits)
  from Agent_remove_agents [OF r, of a "x\<lparr>energy := energy x + energy_from_food x\<rparr>"]
  show ?thesis by auto
qed

lemma Animal_feed_keeps:
  assumes "agents w a = Some (Animal x)" and "Animal_feed w a = Inr w3"
  shows "\<exists>e c'. agents w3 a = Some (Animal (x\<lparr>energy := e, cell := c'\<rparr>))"
proof (cases "variant x")
  case Sheep
  with assms have "Sheep_feed w a = Inr w3" by (simp add: Animal_feed_def)
  from Sheep_feed_keeps [OF assms(1) this] show ?thesis
  proof
    assume "agents w3 a = Some (Animal x)"
    with animal_update_id [of x] show ?thesis by metis
  next
    assume "agents w3 a = Some (Animal (x\<lparr>energy := energy x + energy_from_food x\<rparr>))"
    moreover have "x\<lparr>energy := energy x + energy_from_food x, cell := cell x\<rparr>
                   = x\<lparr>energy := energy x + energy_from_food x\<rparr>" by simp
    ultimately show ?thesis by metis
  qed
next
  case Wolf
  with assms have "Wolf_feed w a = Inr w3" by (simp add: Animal_feed_def)
  from Wolf_feed_keeps [OF assms(1) this] show ?thesis .
qed

lemma Agent_remove_fields:
  assumes "agents w a = Some (Animal x)"
  shows "\<exists>w'. Agent_remove w a = Inr w' \<and> registered w' = registered w - {a}
            \<and> next_id w' = next_id w \<and> rng w' = rng w \<and> events w' = events w
            \<and> time w' = time w
            \<and> agents w' = (agents w)(a \<mapsto> Animal (x\<lparr>cell := None\<rparr>))
            \<and> (\<forall>c. cell_agents w' c =
                  (if cell x = Some c then removeAll a (cell_agents w c) else cell_agents w c))"
  using assms
  by (simp add: Agent_remove_def set_cell_fields set_cell_occupants)

lemma spawn_offspring_fields:
  assumes "agents w a = Some (Animal x)"
  shows "\<exists>w'. spawn_offspring w a = Inr w'
            \<and> registered w' = insert (next_id w) (registered w)
            \<and> next_id w' = Suc (next_id w) \<and> rng w' = rng w \<and> events w' = events w
            \<and> time w' = time w"
  using assms
  by (simp add: spawn_offspring_def Animal_init_def Let_def set_cell_fields)

lemma Inr_state_after: "\<not> isl r \<Longrightarrow> r = Inr (state_after r)"
  by (cases r) (simp_all add: state_after_def)

lemma stl_sconst0: "stl (sconst (0::nat)) = sconst 0" "shd (sconst (0::nat)) = 0"
  by simp_all

text \<open>
  The outcomes of a step whose move and feed return normally.
\<close>

lemma Animal_step_outcomes:
  assumes "agents w a = Some (Animal x)"
      and "Animal_move w a = Inr w1"
      and "Animal_feed (state_after (metabolize w1 a)) a = Inr w3"
      and "u = real (shd (rng w3) mod 2 ^ 53) / 2 ^ 53"
  shows "\<exists>x1 x3.
           agents w1 a = Some (Animal x1) \<and> energy x1 = energy x
         \<and> metabolize w1 a
             = Inr (w1\<lparr>agents := (agents w1)(a \<mapsto> Animal (x1\<lparr>energy := energy x - 1\<rparr>))\<rparr>)
         \<and> agents w3 a = Some (Animal x3) \<and> p_reproduce x3 = p_reproduce x
         \<and> Animal_step w a = resolve w3 a
         \<and> (energy x3 < 0 \<longrightarrow>
              (\<exists>w'. Animal_step w a = Inr w'
                  \<and> registered w' = registered w3 - {a}
                  \<and> next_id w' = next_id w3
                  \<and> rng w' = rng w3))
         \<and> (\<not> energy x3 < 0 \<and> u < p_reproduce x \<longrightarrow>
              (\<exists>w'. Animal_step w a = Inr w'
                  \<and> spawn_offspring (w3\<lparr>rng := stl (rng w3)\<rparr>) a = Inr w'
                  \<and> registered w' = insert (next_id w3) (registered w3)
                  \<and> next_id w' = Suc (next_id w3)
                  \<and> rng w' = stl (rng w3)))
         \<and> (\<not> energy x3 < 0 \<and> \<not> u < p_reproduce x \<longrightarrow>
              Animal_step w a = Inr (w3\<lparr>rng := stl (rng w3)\<rparr>))"
proof -
  from Animal_move_keeps [OF assms(1,2)] obtain c1 where
    x1: "agents w1 a = Some (Animal (x\<lparr>cell := c1\<rparr>))" by blast
  let ?x1 = "x\<lparr>cell := c1\<rparr>"
  let ?w2 = "w1\<lparr>agents := (agents w1)(a \<mapsto> Animal (?x1\<lparr>energy := energy x - 1\<rparr>))\<rparr>"
  have m: "metabolize w1 a = Inr ?w2" using x1 by (simp add: metabolize_def)
  then have f: "Animal_feed ?w2 a = Inr w3" using assms(3) by (simp add: state_after_def)
  have "agents ?w2 a = Some (Animal (?x1\<lparr>energy := energy x - 1\<rparr>))" by simp
  from Animal_feed_keeps [OF this f] obtain e c3 where
    x3: "agents w3 a = Some (Animal (x\<lparr>cell := c1, energy := energy x - 1,
                                        energy := e, cell := c3\<rparr>))" by auto
  let ?x3 = "x\<lparr>cell := c1, energy := energy x - 1, energy := e, cell := c3\<rparr>"
  have s: "Animal_step w a = resolve w3 a"
    using assms(2) m f by (simp add: Animal_step_def)
  have a3: "agents (w3\<lparr>rng := stl (rng w3)\<rparr>) a = Some (Animal ?x3)" using x3 by simp
  have dead: "energy ?x3 < 0 \<longrightarrow>
              (\<exists>w'. Animal_step w a = Inr w'
                  \<and> registered w' = registered w3 - {a}
                  \<and> next_id w' = next_id w3
                  \<and> rng w' = rng w3)"
    using Agent_remove_fields [OF x3] s x3 by (auto simp: resolve_def)
  have born: "\<not> energy ?x3 < 0 \<and> u < p_reproduce x \<longrightarrow>
              (\<exists>w'. Animal_step w a = Inr w'
                  \<and> spawn_offspring (w3\<lparr>rng := stl (rng w3)\<rparr>) a = Inr w'
                  \<and> registered w' = insert (next_id w3) (registered w3)
                  \<and> next_id w' = Suc (next_id w3)
                  \<and> rng w' = stl (rng w3))"
    using spawn_offspring_fields [OF a3] s x3 assms(4)
    by (auto simp: resolve_def random_random_def)
  have none: "\<not> energy ?x3 < 0 \<and> \<not> u < p_reproduce x \<longrightarrow>
              Animal_step w a = Inr (w3\<lparr>rng := stl (rng w3)\<rparr>)"
    using s x3 assms(4) by (auto simp: resolve_def random_random_def)
  show ?thesis
    apply (rule exI [of _ ?x1])
    apply (rule exI [of _ ?x3])
    using x1 m x3 s dead born none by simp
qed

text \<open>
  C1, as amended. The step of an animal is its move (that of its class), then
  \<^verbatim>\<open>energy -= 1\<close>, then its feed (that of its class), then the last statement. The move
  keeps the energy, and the energy then goes down by exactly one whatever the state.
  When the move or the feed raises, the step ends there with that exception and
  nothing after it is executed: a step that raises in the feed has paid the energy,
  and the animal is neither removed nor takes the reproduction draw. When both return
  normally, the last statement decides on the energy \<open>x3\<close> has after feeding. If it is
  negative the animal is removed from the model, no agent is created and the random
  source is untouched: the reproduction draw is not taken. Otherwise one draw \<open>u\<close> is
  taken, the animal stays, and it spawns an offspring exactly when \<open>u\<close> is below its
  \<^verbatim>\<open>p_reproduce\<close>. The three outcomes exclude one another. The probability itself is
  that of the draw: \<open>u\<close> lies in \<open>[0, 1)\<close>.
\<close>

theorem Animal_step_order:
  assumes "agents w a = Some (Animal x)"
  shows "Animal_move w a = (case variant x of Sheep \<Rightarrow> Sheep_move w a | Wolf \<Rightarrow> Wolf_move w a)
       \<and> (\<forall>e. Animal_move w a = Inl e \<longrightarrow> Animal_step w a = Inl e)
       \<and> (\<forall>w1. Animal_move w a = Inr w1 \<longrightarrow>
            (\<exists>x1. agents w1 a = Some (Animal x1) \<and> energy x1 = energy x
               \<and> metabolize w1 a
                   = Inr (w1\<lparr>agents := (agents w1)
                                 (a \<mapsto> Animal (x1\<lparr>energy := energy x - 1\<rparr>))\<rparr>)))
       \<and> (\<forall>w1 w2. Animal_move w a = Inr w1 \<and> metabolize w1 a = Inr w2 \<longrightarrow>
              Animal_feed w2 a
                = (case variant x of Sheep \<Rightarrow> Sheep_feed w2 a | Wolf \<Rightarrow> Wolf_feed w2 a)
            \<and> (\<forall>e. Animal_feed w2 a = Inl e \<longrightarrow> Animal_step w a = Inl e)
            \<and> (\<forall>w3. Animal_feed w2 a = Inr w3 \<longrightarrow>
                 (\<exists>x3. agents w3 a = Some (Animal x3) \<and> p_reproduce x3 = p_reproduce x
                     \<and> Animal_step w a = resolve w3 a
                     \<and> (energy x3 < 0 \<longrightarrow>
                          (\<exists>w'. Animal_step w a = Inr w'
                              \<and> registered w' = registered w3 - {a}
                              \<and> next_id w' = next_id w3
                              \<and> rng w' = rng w3))
                     \<and> (\<not> energy x3 < 0
                          \<and> real (shd (rng w3) mod 2 ^ 53) / 2 ^ 53 < p_reproduce x \<longrightarrow>
                          (\<exists>w'. Animal_step w a = Inr w'
                              \<and> spawn_offspring (w3\<lparr>rng := stl (rng w3)\<rparr>) a = Inr w'
                              \<and> registered w' = insert (next_id w3) (registered w3)
                              \<and> next_id w' = Suc (next_id w3)
                              \<and> rng w' = stl (rng w3)))
                     \<and> (\<not> energy x3 < 0
                          \<and> \<not> real (shd (rng w3) mod 2 ^ 53) / 2 ^ 53 < p_reproduce x \<longrightarrow>
                          Animal_step w a = Inr (w3\<lparr>rng := stl (rng w3)\<rparr>)))))"
proof -
  have 1: "Animal_move w a
             = (case variant x of Sheep \<Rightarrow> Sheep_move w a | Wolf \<Rightarrow> Wolf_move w a)"
    using assms by (simp add: Animal_move_def)
  have 2: "\<forall>e. Animal_move w a = Inl e \<longrightarrow> Animal_step w a = Inl e"
    by (simp add: Animal_step_def)
  have 3: "\<exists>x1. agents w1 a = Some (Animal x1) \<and> energy x1 = energy x
               \<and> metabolize w1 a
                   = Inr (w1\<lparr>agents := (agents w1)
                                 (a \<mapsto> Animal (x1\<lparr>energy := energy x - 1\<rparr>))\<rparr>)"
    if m: "Animal_move w a = Inr w1" for w1
  proof -
    from Animal_move_keeps [OF assms m] obtain c1 where
      x1: "agents w1 a = Some (Animal (x\<lparr>cell := c1\<rparr>))" by blast
    then have "metabolize w1 a
        = Inr (w1\<lparr>agents := (agents w1)
                    (a \<mapsto> Animal (x\<lparr>cell := c1, energy := energy x - 1\<rparr>))\<rparr>)"
      by (simp add: metabolize_def)
    with x1 show ?thesis by (intro exI [of _ "x\<lparr>cell := c1\<rparr>"]) simp
  qed
  have 4: "Animal_feed w2 a
                = (case variant x of Sheep \<Rightarrow> Sheep_feed w2 a | Wolf \<Rightarrow> Wolf_feed w2 a)
            \<and> (\<forall>e. Animal_feed w2 a = Inl e \<longrightarrow> Animal_step w a = Inl e)
            \<and> (\<forall>w3. Animal_feed w2 a = Inr w3 \<longrightarrow>
                 (\<exists>x3. agents w3 a = Some (Animal x3) \<and> p_reproduce x3 = p_reproduce x
                     \<and> Animal_step w a = resolve w3 a
                     \<and> (energy x3 < 0 \<longrightarrow>
                          (\<exists>w'. Animal_step w a = Inr w'
                              \<and> registered w' = registered w3 - {a}
                              \<and> next_id w' = next_id w3
                              \<and> rng w' = rng w3))
                     \<and> (\<not> energy x3 < 0
                          \<and> real (shd (rng w3) mod 2 ^ 53) / 2 ^ 53 < p_reproduce x \<longrightarrow>
                          (\<exists>w'. Animal_step w a = Inr w'
                              \<and> spawn_offspring (w3\<lparr>rng := stl (rng w3)\<rparr>) a = Inr w'
                              \<and> registered w' = insert (next_id w3) (registered w3)
                              \<and> next_id w' = Suc (next_id w3)
                              \<and> rng w' = stl (rng w3)))
                     \<and> (\<not> energy x3 < 0
                          \<and> \<not> real (shd (rng w3) mod 2 ^ 53) / 2 ^ 53 < p_reproduce x \<longrightarrow>
                          Animal_step w a = Inr (w3\<lparr>rng := stl (rng w3)\<rparr>))))"
    if m: "Animal_move w a = Inr w1" and b: "metabolize w1 a = Inr w2" for w1 w2
  proof (intro conjI allI impI)
    from Animal_move_keeps [OF assms m] obtain c1 where
      x1: "agents w1 a = Some (Animal (x\<lparr>cell := c1\<rparr>))" by blast
    with b have "agents w2 a = Some (Animal (x\<lparr>cell := c1, energy := energy x - 1\<rparr>))"
      by (auto simp: metabolize_def)
    then show "Animal_feed w2 a
                = (case variant x of Sheep \<Rightarrow> Sheep_feed w2 a | Wolf \<Rightarrow> Wolf_feed w2 a)"
      by (simp add: Animal_feed_def)
  next
    fix e assume "Animal_feed w2 a = Inl e"
    with m b show "Animal_step w a = Inl e" by (simp add: Animal_step_def)
  next
    fix w3 assume f: "Animal_feed w2 a = Inr w3"
    then have f': "Animal_feed (state_after (metabolize w1 a)) a = Inr w3"
      using b by (simp add: state_after_def)
    from Animal_step_outcomes [OF assms m f' refl]
    show "\<exists>x3. agents w3 a = Some (Animal x3) \<and> p_reproduce x3 = p_reproduce x
                     \<and> Animal_step w a = resolve w3 a
                     \<and> (energy x3 < 0 \<longrightarrow>
                          (\<exists>w'. Animal_step w a = Inr w'
                              \<and> registered w' = registered w3 - {a}
                              \<and> next_id w' = next_id w3
                              \<and> rng w' = rng w3))
                     \<and> (\<not> energy x3 < 0
                          \<and> real (shd (rng w3) mod 2 ^ 53) / 2 ^ 53 < p_reproduce x \<longrightarrow>
                          (\<exists>w'. Animal_step w a = Inr w'
                              \<and> spawn_offspring (w3\<lparr>rng := stl (rng w3)\<rparr>) a = Inr w'
                              \<and> registered w' = insert (next_id w3) (registered w3)
                              \<and> next_id w' = Suc (next_id w3)
                              \<and> rng w' = stl (rng w3)))
                     \<and> (\<not> energy x3 < 0
                          \<and> \<not> real (shd (rng w3) mod 2 ^ 53) / 2 ^ 53 < p_reproduce x \<longrightarrow>
                          Animal_step w a = Inr (w3\<lparr>rng := stl (rng w3)\<rparr>))"
      by blast
  qed
  from 1 2 3 4 show ?thesis by blast
qed

theorem Animal_step_order_witness:
  "Animal_step single_cell 2 = Inl (EmptySelectionError, single_cell)
   \<and> (\<exists>w'. Animal_step bare_cell 2 = Inl (StopIteration, w')
         \<and> agents w' 2 = Some (Animal \<lparr>variant = Sheep, energy = - 1, p_reproduce = 1,
                                        energy_from_food = 4, cell = Some 0\<rparr>)
         \<and> 2 \<in> registered w')
   \<and> (\<exists>w'. Animal_step corridor 6 = Inr w' \<and> 6 \<notin> registered w' \<and> next_id w' = 7
         \<and> rng w' = stl (rng corridor))
   \<and> (\<exists>w'. Animal_step meadow 14 = Inr w' \<and> 14 \<in> registered w' \<and> 16 \<in> registered w'
         \<and> next_id w' = 17)
   \<and> (\<exists>w'. Animal_step meadow 13 = Inr w' \<and> 13 \<in> registered w' \<and> next_id w' = 16)"
proof -
  define A1 where "A1 = state_after (Animal_move corridor 6)"
  define A3 where "A3 = state_after (Animal_feed (state_after (metabolize A1 6)) 6)"
  have a1: "Animal_move corridor 6 = Inr A1"
    unfolding A1_def
    by (rule Inr_state_after)
       (simp add: Animal_move_def Wolf_move_def Let_def select_random_cell_simps
          corridor_simps corridor_kinds)
  have A1: "A1 = set_cell (corridor\<lparr>rng := stl (rng corridor)\<rparr>) 6
                   \<lparr>variant = Wolf, energy = 0, p_reproduce = 1,
                        energy_from_food = 4, cell = Some 3\<rparr> (Some 2)"
    unfolding A1_def
    by (simp add: Animal_move_def Wolf_move_def Let_def select_random_cell_simps
          corridor_simps corridor_kinds state_after_def)
  have A3: "A3 = A1\<lparr>agents := (agents A1)(6 \<mapsto> Animal \<lparr>variant = Wolf, energy = - 1,
                      p_reproduce = 1, energy_from_food = 4, cell = Some 2\<rparr>)\<rparr>"
    unfolding A3_def
    by (simp add: A1 metabolize_def Animal_feed_def Wolf_feed_def Let_def state_after_def
        set_cell_fields set_cell_occupants corridor_simps is_sheep_def)
  have a3: "Animal_feed (state_after (metabolize A1 6)) 6 = Inr A3"
    unfolding A3
    by (simp add: A1 metabolize_def Animal_feed_def Wolf_feed_def Let_def state_after_def
        set_cell_fields set_cell_occupants corridor_simps is_sheep_def)
  have 1: "\<exists>w'. Animal_step corridor 6 = Inr w' \<and> 6 \<notin> registered w' \<and> next_id w' = 7
         \<and> rng w' = stl (rng corridor)"
  proof -
    have "\<not> isl (metabolize A1 6)"
      by (simp add: metabolize_def A1 set_cell_fields)
    then have mb: "metabolize A1 6 = Inr (state_after (metabolize A1 6))"
      by (rule Inr_state_after)
    from Animal_step_order [OF corridor_simps(3), THEN conjunct2, THEN conjunct2, THEN conjunct2,
        rule_format, OF conjI [OF a1 mb], THEN conjunct2, THEN conjunct2, rule_format, OF a3]
    obtain x3 where
      x3: "agents A3 6 = Some (Animal x3)" and
      d: "energy x3 < 0 \<longrightarrow>
            (\<exists>w'. Animal_step corridor 6 = Inr w' \<and> registered w' = registered A3 - {6}
                \<and> next_id w' = next_id A3 \<and> rng w' = rng A3)"
      by blast
    from x3 have "energy x3 < 0" by (auto simp: A3)
    with d obtain w' where "Animal_step corridor 6 = Inr w'"
      "registered w' = registered A3 - {6}" "next_id w' = next_id A3" "rng w' = rng A3"
      by blast
    then show ?thesis by (simp add: A3 A1 set_cell_fields corridor_simps)
  qed
  define B1 where "B1 = state_after (Animal_move meadow 14)"
  define B3 where "B3 = state_after (Animal_feed (state_after (metabolize B1 14)) 14)"
  have B1: "B1 = set_cell (meadow\<lparr>rng := stl (rng meadow)\<rparr>) 14
                   \<lparr>variant = Wolf, energy = 5, p_reproduce = 1,
                        energy_from_food = 4, cell = Some 3\<rparr> (Some 2)"
    unfolding B1_def
    by (simp add: Animal_move_def Wolf_move_def Let_def select_random_cell_simps
          meadow_simps meadow_kinds state_after_def)
  have b1: "Animal_move meadow 14 = Inr B1"
    unfolding B1
    by (simp add: Animal_move_def Wolf_move_def Let_def select_random_cell_simps
          meadow_simps meadow_kinds)
  have b3: "Animal_feed (state_after (metabolize B1 14)) 14 = Inr B3"
    unfolding B3_def
    by (rule Inr_state_after)
       (simp add: B1 metabolize_def Animal_feed_def Wolf_feed_def Let_def state_after_def
        set_cell_fields set_cell_occupants meadow_simps is_sheep_def random_choice_def
        Agent_remove_def)
  have B3: "agents B3 14 = Some (Animal \<lparr>variant = Wolf, energy = 8, p_reproduce = 1,
                        energy_from_food = 4, cell = Some 2\<rparr>)
          \<and> registered B3 = {10, 11, 12, 14, 15} \<and> next_id B3 = 16
          \<and> shd (rng B3) = 0"
    unfolding B3_def
    by (auto simp: B1 metabolize_def Animal_feed_def Wolf_feed_def Let_def state_after_def
        set_cell_fields set_cell_occupants meadow_simps is_sheep_def random_choice_def
        Agent_remove_def)
  have 2: "\<exists>w'. Animal_step meadow 14 = Inr w' \<and> 14 \<in> registered w' \<and> 16 \<in> registered w'
         \<and> next_id w' = 17"
  proof -
    have "\<not> isl (metabolize B1 14)"
      by (simp add: metabolize_def B1 set_cell_fields)
    then have mb: "metabolize B1 14 = Inr (state_after (metabolize B1 14))"
      by (rule Inr_state_after)
    from Animal_step_order [OF meadow_simps(5), THEN conjunct2, THEN conjunct2, THEN conjunct2,
        rule_format, OF conjI [OF b1 mb], THEN conjunct2, THEN conjunct2, rule_format, OF b3]
    obtain x3 where
      x3: "agents B3 14 = Some (Animal x3)" and
      d: "\<not> energy x3 < 0 \<and> real (shd (rng B3) mod 2 ^ 53) / 2 ^ 53
              < p_reproduce \<lparr>variant = Wolf, energy = 5, p_reproduce = 1,
                        energy_from_food = 4, cell = Some 3\<rparr> \<longrightarrow>
            (\<exists>w'. Animal_step meadow 14 = Inr w'
                \<and> spawn_offspring (B3\<lparr>rng := stl (rng B3)\<rparr>) 14 = Inr w'
                \<and> registered w' = insert (next_id B3) (registered B3)
                \<and> next_id w' = Suc (next_id B3)
                \<and> rng w' = stl (rng B3))"
      by blast
    from x3 B3 have "\<not> energy x3 < 0" by auto
    with d B3 obtain w' where "Animal_step meadow 14 = Inr w'"
      "registered w' = insert (next_id B3) (registered B3)" "next_id w' = Suc (next_id B3)"
      by auto
    then show ?thesis using B3 by simp
  qed
  define C1 where "C1 = state_after (Animal_move meadow 13)"
  define C3 where "C3 = state_after (Animal_feed (state_after (metabolize C1 13)) 13)"
  have C1: "C1 = set_cell (meadow\<lparr>rng := stl (rng meadow)\<rparr>) 13
                   \<lparr>variant = Sheep, energy = 8, p_reproduce = 0,
                        energy_from_food = 4, cell = Some 2\<rparr> (Some 4)"
    unfolding C1_def
    by (simp add: Animal_move_def Sheep_move_def Let_def select_random_cell_simps
          meadow_simps meadow_kinds state_after_def)
  have c1: "Animal_move meadow 13 = Inr C1"
    unfolding C1
    by (simp add: Animal_move_def Sheep_move_def Let_def select_random_cell_simps
          meadow_simps meadow_kinds)
  have c3: "Animal_feed (state_after (metabolize C1 13)) 13 = Inr C3"
    unfolding C3_def
    by (rule Inr_state_after)
       (simp add: C1 metabolize_def Animal_feed_def Sheep_feed_def Let_def state_after_def
        set_cell_fields set_cell_occupants meadow_simps is_grass_patch_def is_grown_patch_def
        set_fully_grown_def schedule_event_relative_def)
  have C3: "agents C3 13 = Some (Animal \<lparr>variant = Sheep, energy = 11, p_reproduce = 0,
                        energy_from_food = 4, cell = Some 4\<rparr>)
          \<and> registered C3 = {10, 11, 12, 13, 14, 15} \<and> next_id C3 = 16
          \<and> shd (rng C3) = 0"
    unfolding C3_def
    by (auto simp: C1 metabolize_def Animal_feed_def Sheep_feed_def Let_def state_after_def
        set_cell_fields set_cell_occupants meadow_simps is_grass_patch_def is_grown_patch_def
        set_fully_grown_def schedule_event_relative_def)
  have 3: "\<exists>w'. Animal_step meadow 13 = Inr w' \<and> 13 \<in> registered w' \<and> next_id w' = 16"
  proof -
    have "\<not> isl (metabolize C1 13)"
      by (simp add: metabolize_def C1 set_cell_fields)
    then have mb: "metabolize C1 13 = Inr (state_after (metabolize C1 13))"
      by (rule Inr_state_after)
    from Animal_step_order [OF meadow_simps(4), THEN conjunct2, THEN conjunct2, THEN conjunct2,
        rule_format, OF conjI [OF c1 mb], THEN conjunct2, THEN conjunct2, rule_format, OF c3]
    obtain x3 where
      x3: "agents C3 13 = Some (Animal x3)" and
      d: "\<not> energy x3 < 0 \<and> \<not> real (shd (rng C3) mod 2 ^ 53) / 2 ^ 53
              < p_reproduce \<lparr>variant = Sheep, energy = 8, p_reproduce = 0,
                        energy_from_food = 4, cell = Some 2\<rparr> \<longrightarrow>
            Animal_step meadow 13 = Inr (C3\<lparr>rng := stl (rng C3)\<rparr>)"
      by blast
    from x3 C3 have "\<not> energy x3 < 0" by auto
    with d C3 have "Animal_step meadow 13 = Inr (C3\<lparr>rng := stl (rng C3)\<rparr>)" by simp
    then show ?thesis using C3 by simp
  qed
  have 4: "Animal_step single_cell 2 = Inl (EmptySelectionError, single_cell)"
  proof -
    have "Animal_move single_cell 2 = Inl (EmptySelectionError, single_cell)"
      by (simp add: Animal_move_def Wolf_move_def Let_def select_random_cell_simps
          single_cell_simps)
    with Animal_step_order [OF single_cell_simps(1), THEN conjunct2, THEN conjunct1]
    show ?thesis by blast
  qed
  have 5: "\<exists>w'. Animal_step bare_cell 2 = Inl (StopIteration, w')
         \<and> agents w' 2 = Some (Animal \<lparr>variant = Sheep, energy = - 1, p_reproduce = 1,
                                        energy_from_food = 4, cell = Some 0\<rparr>)
         \<and> 2 \<in> registered w'"
  proof -
    have s: "agents bare_cell 2 = Some (Animal \<lparr>variant = Sheep, energy = 0, p_reproduce = 1,
                        energy_from_food = 4, cell = Some 0\<rparr>)"
      by (simp add: bare_cell_def)
    have mv: "Animal_move bare_cell 2 = Inr bare_cell"
      by (simp add: Animal_move_def Sheep_move_def Let_def bare_cell_def)
    define w2 where "w2 = bare_cell\<lparr>agents := (agents bare_cell)
                 (2 \<mapsto> Animal \<lparr>variant = Sheep, energy = - 1, p_reproduce = 1,
                                 energy_from_food = 4, cell = Some 0\<rparr>)\<rparr>"
    have mb: "metabolize bare_cell 2 = Inr w2"
      by (simp add: metabolize_def w2_def s)
    have f: "Animal_feed w2 2 = Inl (StopIteration, w2)"
      by (simp add: w2_def Animal_feed_def Sheep_feed_def bare_cell_def is_grass_patch_def)
    from Animal_step_order [OF s, THEN conjunct2, THEN conjunct2, THEN conjunct2,
        rule_format, OF conjI [OF mv mb], THEN conjunct2, THEN conjunct1, rule_format, OF f]
    have "Animal_step bare_cell 2 = Inl (StopIteration, w2)" .
    moreover have "agents w2 2 = Some (Animal \<lparr>variant = Sheep, energy = - 1, p_reproduce = 1,
                                        energy_from_food = 4, cell = Some 0\<rparr>)"
      "2 \<in> registered w2"
      by (simp_all add: w2_def bare_cell_def)
    ultimately show ?thesis by blast
  qed
  from 1 2 3 4 5 show ?thesis by simp
qed

text \<open>
  The claim C1 as stated has every step of a live animal pay the energy and end in
  removal or the reproduction draw. A step that raises does neither. The wolf of the
  grid of one cell raises in its move: its energy stays 5. The starving sheep on the
  cell without grass raises in its feed, after paying: it ends with energy -1 and is
  still registered.
\<close>

theorem Animal_step_raises_counterexample:
  "Animal_step single_cell 2 = Inl (EmptySelectionError, single_cell)
   \<and> agents single_cell 2 = Some (Animal \<lparr>variant = Wolf, energy = 5, p_reproduce = 0,
                        energy_from_food = 4, cell = Some 0\<rparr>)
   \<and> isl (Animal_step bare_cell 2)
   \<and> fst (projl (Animal_step bare_cell 2)) = StopIteration
   \<and> agents (state_after (Animal_step bare_cell 2)) 2
       = Some (Animal \<lparr>variant = Sheep, energy = - 1, p_reproduce = 1,
                        energy_from_food = 4, cell = Some 0\<rparr>)
   \<and> 2 \<in> registered (state_after (Animal_step bare_cell 2))"
  by (simp add: Animal_step_def Animal_move_def Wolf_move_def Sheep_move_def Let_def
      select_random_cell_simps single_cell_simps metabolize_def Animal_feed_def
      Sheep_feed_def bare_cell_def is_grass_patch_def state_after_def)

subsection \<open>An eaten sheep is eaten once\<close>

text \<open>
  An agent that is gone stays gone through every action that is not its own, provided
  its id is below the next id to be given out: occupant lists gain only the acting
  agent and newly created agents, and the set of registered agents gains only newly
  created agents.
\<close>

lemma set_cell_keeps_out:
  "i \<noteq> s \<Longrightarrow> s \<notin> set (cell_agents w c) \<Longrightarrow> s \<notin> set (cell_agents (set_cell w i x c') c)"
  by (cases c'; cases "cell x")
     (auto simp: set_cell_def vacate_def place_def Let_def split: if_splits)

lemma set_cell_None_keeps_out:
  "s \<notin> set (cell_agents w c) \<Longrightarrow> s \<notin> set (cell_agents (set_cell w i x None) c)"
  by (cases "cell x") (auto simp: set_cell_def vacate_def Let_def split: if_splits)

lemma Animal_move_gone:
  assumes "Animal_move w a = Inr w'" and "a \<noteq> s" and "gone w s"
  shows "gone w' s \<and> next_id w' = next_id w"
  using assms
  by (auto simp: gone_def Animal_move_def Sheep_move_def Wolf_move_def Let_def
      select_random_cell_def random_choice_def set_cell_fields set_cell_keeps_out
      split: option.splits agent.splits kind.splits if_splits)

lemma metabolize_gone:
  assumes "metabolize w a = Inr w'" and "gone w s"
  shows "gone w' s \<and> next_id w' = next_id w"
  using assms
  by (auto simp: gone_def metabolize_def split: option.splits agent.splits)

lemma Agent_remove_gone:
  assumes "Agent_remove w a = Inr w'" and "gone w s"
  shows "gone w' s \<and> next_id w' = next_id w"
  using assms
  by (auto simp: gone_def Agent_remove_def set_cell_fields set_cell_None_keeps_out
      split: option.splits agent.splits)

lemma Animal_feed_gone:
  assumes "Animal_feed w a = Inr w'" and "gone w s"
  shows "gone w' s \<and> next_id w' = next_id w"
proof -
  have g: "\<And>v f. gone (v\<lparr>agents := f\<rparr>) s = gone v s" "\<And>v f. gone (v\<lparr>rng := f\<rparr>) s = gone v s"
    "\<And>v f. gone (v\<lparr>events := f\<rparr>) s = gone v s"
    by (simp_all add: gone_def)
  show ?thesis
    using assms
    by (auto simp: Animal_feed_def Sheep_feed_def Wolf_feed_def Let_def g
        set_fully_grown_def schedule_event_relative_def random_choice_def
        dest!: Agent_remove_gone [where s = s]
        split: option.splits agent.splits kind.splits if_splits)
qed

lemma Animal_init_gone:
  assumes "gone w s" and "s \<noteq> next_id w"
  shows "gone (Animal_init w k e p f c) s \<and> next_id (Animal_init w k e p f c) = Suc (next_id w)"
proof -
  let ?x = "\<lparr>variant = k, energy = e, p_reproduce = p, energy_from_food = f, cell = None\<rparr>"
  let ?w1 = "w\<lparr>next_id := Suc (next_id w), registered := insert (next_id w) (registered w),
                 agents := (agents w)(next_id w \<mapsto> Animal ?x)\<rparr>"
  have "s \<notin> set (cell_agents (set_cell ?w1 (next_id w) ?x c) ca)" for ca
    using assms set_cell_keeps_out [of "next_id w" s ?w1 ca ?x c] by (simp add: gone_def)
  then show ?thesis
    using assms by (simp add: gone_def Animal_init_def Let_def set_cell_fields)
qed

lemma resolve_gone:
  assumes "resolve w a = Inr w'" and "gone w s" and "s < next_id w"
  shows "gone w' s \<and> next_id w \<le> next_id w'"
proof -
  have g: "\<And>v f. gone (v\<lparr>agents := f\<rparr>) s = gone v s" "\<And>v f. gone (v\<lparr>rng := f\<rparr>) s = gone v s"
    by (simp_all add: gone_def)
  show ?thesis
    using assms Animal_init_gone [of _ s]
    by (auto simp: resolve_def random_random_def spawn_offspring_def Let_def g
        dest!: Agent_remove_gone [where s = s]
        split: option.splits agent.splits if_splits)
qed

lemma Animal_step_gone:
  assumes "Animal_step w a = Inr w'" and "a \<noteq> s" and "gone w s" and "s < next_id w"
  shows "gone w' s \<and> next_id w \<le> next_id w'"
proof -
  from assms(1) obtain w1 w2 w3 where
    m: "Animal_move w a = Inr w1" and b: "metabolize w1 a = Inr w2"
    and f: "Animal_feed w2 a = Inr w3" and r: "resolve w3 a = Inr w'"
    by (auto simp: Animal_step_def split: sum.splits)
  from Animal_move_gone [OF m assms(2,3)] have 1: "gone w1 s" "next_id w1 = next_id w" by auto
  from metabolize_gone [OF b 1(1)] have 2: "gone w2 s" "next_id w2 = next_id w1" by auto
  from Animal_feed_gone [OF f 2(1)] have 3: "gone w3 s" "next_id w3 = next_id w2" by auto
  from resolve_gone [OF r 3(1)] assms(4) 1 2 3 show ?thesis by simp
qed

lemma set_fully_grown_frame:
  assumes "set_fully_grown w p v = Inr w'"
  shows "registered w' = registered w \<and> cell_agents w' = cell_agents w
       \<and> next_id w' = next_id w \<and> time w' = time w \<and> rng w' = rng w"
  using assms
  by (auto simp: set_fully_grown_def schedule_event_relative_def Let_def
      split: option.splits agent.splits if_splits)

lemma apply_events_frame:
  "apply_events es w = Inr w' \<Longrightarrow>
   registered w' = registered w \<and> cell_agents w' = cell_agents w
   \<and> next_id w' = next_id w \<and> time w' = time w \<and> rng w' = rng w"
proof (induction es arbitrary: w)
  case Nil
  then show ?case by simp
next
  case (Cons e es)
  then obtain w1 where 1: "set_fully_grown w (snd e) True = Inr w1"
    and 2: "apply_events es w1 = Inr w'"
    by (auto split: sum.splits)
  from set_fully_grown_frame [OF 1] Cons.IH [OF 2] show ?case by simp
qed

lemma advance_time_frame:
  assumes "advance_time w = Inr w'"
  shows "registered w' = registered w \<and> cell_agents w' = cell_agents w
       \<and> next_id w' = next_id w \<and> time w' = time w + 1 \<and> rng w' = rng w"
  using apply_events_frame [OF assms [unfolded advance_time_def fire_due_def]]
  by simp

lemma GrassPatch_init_gone:
  assumes "GrassPatch_init w cd r c = Inr w'" and "gone w s" and "s \<noteq> next_id w"
  shows "gone w' s \<and> next_id w' = Suc (next_id w)"
  using assms
  by (auto simp: GrassPatch_init_def gone_def Let_def place_def schedule_event_relative_def
      split: if_splits)

lemma perform_gone:
  assumes "perform x w = Inr w'" and "actor x \<noteq> Some s" and "gone w s" and "s < next_id w"
  shows "gone w' s \<and> s < next_id w'"
proof (cases x)
  case Tick
  with assms advance_time_frame [of w w'] show ?thesis by (simp add: gone_def)
next
  case (New_patch cd r c)
  with assms GrassPatch_init_gone [of w cd r c w' s] show ?thesis by simp
next
  case (New_animal k e p f c)
  with assms Animal_init_gone [of w s k e p f c] show ?thesis by auto
next
  case (Move a)
  with assms Animal_move_gone [of w a w' s] show ?thesis by simp
next
  case (Metabolize a)
  with assms metabolize_gone [of w a w' s] show ?thesis by simp
next
  case (Feed a)
  with assms Animal_feed_gone [of w a w' s] show ?thesis by simp
next
  case (Resolve a)
  with assms resolve_gone [of w a w' s] show ?thesis by simp
next
  case (Step a)
  with assms Animal_step_gone [of w a w' s] show ?thesis by simp
qed

lemma run_gone:
  "run acts w = Inr w' \<Longrightarrow> Some s \<notin> set (map actor acts) \<Longrightarrow> gone w s \<Longrightarrow> s < next_id w
   \<Longrightarrow> gone w' s"
proof (induction acts arbitrary: w)
  case Nil
  then show ?case by simp
next
  case (Cons x xs)
  then obtain w1 where 1: "perform x w = Inr w1" and 2: "run xs w1 = Inr w'"
    by (auto split: sum.splits)
  from Cons.prems have "actor x \<noteq> Some s" by auto
  from perform_gone [OF 1 this Cons.prems(3,4)] have "gone w1 s" "s < next_id w1" by auto
  with Cons.IH [OF 2] Cons.prems(2) show ?case by simp
qed

lemma meadow_occupancy_ok: "occupancy_ok meadow"
  by (auto simp: occupancy_ok_def meadow_def split: if_splits)

text \<open>
  C4. A wolf on cell \<open>c\<close>; \<open>sheep\<close> are the sheep among the occupants of \<open>c\<close>. Without
  sheep, \<^verbatim>\<open>Wolf.feed\<close> returns normally and the world is unchanged. With sheep, the wolf
  eats the sheep \<open>s\<close> at the drawn index of that list (one draw): the wolf gains
  \<^verbatim>\<open>energy_from_food\<close>, \<open>s\<close> and only \<open>s\<close> leaves the registered agents, and no other
  agent changes. In a world that keeps the invariant of cells and agents, \<open>s\<close> is then an
  occupant of no cell, and it stays so through every later history in which \<open>s\<close> itself
  does not act (a removed agent is skipped), so that no later scan of a cell for sheep
  finds \<open>s\<close>: no second wolf eats it.
\<close>

theorem Wolf_feed_eats_one_sheep:
  assumes "agents w a = Some (Animal x)"
      and "variant x = Wolf"
      and "cell x = Some c"
      and "sheep = filter (is_sheep w) (cell_agents w c)"
      and "s = sheep ! (shd (rng w) mod length sheep)"
  shows "(sheep = [] \<longrightarrow> Wolf_feed w a = Inr w)
       \<and> (sheep \<noteq> [] \<longrightarrow>
            (\<exists>w'. Wolf_feed w a = Inr w'
                \<and> s \<in> set (cell_agents w c) \<and> is_sheep w s
                \<and> agents w' a = Some (Animal (x\<lparr>energy := energy x + energy_from_food x\<rparr>))
                \<and> registered w' = registered w - {s}
                \<and> rng w' = stl (rng w)
                \<and> (\<forall>i. i \<noteq> a \<and> i \<noteq> s \<longrightarrow> agents w' i = agents w i)
                \<and> (occupancy_ok w \<longrightarrow>
                      gone w' s
                    \<and> (\<forall>c'. cell_agents w' c' = removeAll s (cell_agents w c'))
                    \<and> (\<forall>acts w''. s < next_id w \<and> Some s \<notin> set (map actor acts)
                            \<and> run acts w' = Inr w''
                          \<longrightarrow> gone w'' s
                            \<and> (\<forall>c'. s \<notin> set (filter (is_sheep w'') (cell_agents w'' c')))))))"
proof (cases "sheep = []")
  case True
  with assms show ?thesis by (simp add: Wolf_feed_def)
next
  case False
  then have "s \<in> set sheep" using assms(5) by simp
  then have sc: "s \<in> set (cell_agents w c)" and ss: "is_sheep w s" using assms(4) by auto
  from ss obtain y where y: "agents w s = Some (Animal y)" "variant y = Sheep"
    by (auto simp: is_sheep_def split: option.splits agent.splits)
  with assms(1,2) have ne: "s \<noteq> a" by auto
  let ?x = "x\<lparr>energy := energy x + energy_from_food x\<rparr>"
  let ?w2 = "w\<lparr>rng := stl (rng w), agents := (agents w)(a \<mapsto> Animal ?x)\<rparr>"
  define w' where "w' = set_cell (?w2\<lparr>registered := registered ?w2 - {s}\<rparr>) s y None"
  have f: "Wolf_feed w a = Inr w'"
    using assms False y ne
    by (simp add: Wolf_feed_def Let_def random_choice_def Agent_remove_def w'_def)
  have 1: "agents w' a = Some (Animal ?x)" using ne by (simp add: set_cell_fields w'_def)
  have 2: "registered w' = registered w - {s}" "rng w' = stl (rng w)"
    by (simp_all add: set_cell_fields w'_def)
  have 3: "\<forall>i. i \<noteq> a \<and> i \<noteq> s \<longrightarrow> agents w' i = agents w i"
    by (simp add: set_cell_fields w'_def)
  have 4: "gone w' s \<and> (\<forall>c'. cell_agents w' c' = removeAll s (cell_agents w c'))"
    if ok: "occupancy_ok w"
  proof -
    from ok sc y have cy: "cell y = Some c" by (auto simp: occupancy_ok_def)
    have other: "s \<notin> set (cell_agents w c')" if "c' \<noteq> c" for c'
      using ok y cy that by (auto simp: occupancy_ok_def)
    have r: "cell_agents w' c' = removeAll s (cell_agents w c')" for c'
      using cy other [of c'] by (cases "c' = c") (simp_all add: set_cell_occupants w'_def)
    then show ?thesis by (simp add: gone_def 2)
  qed
  have 5: "gone w'' s \<and> (\<forall>c'. s \<notin> set (filter (is_sheep w'') (cell_agents w'' c')))"
    if "occupancy_ok w" "s < next_id w" "Some s \<notin> set (map actor acts)"
       "run acts w' = Inr w''" for acts w''
  proof -
    have "s < next_id w'" using that(2) by (simp add: set_cell_fields w'_def)
    from run_gone [OF that(4,3) _ this] 4 [OF that(1)] have "gone w'' s" by simp
    then show ?thesis by (simp add: gone_def)
  qed
  have 45: "occupancy_ok w \<longrightarrow>
                      gone w' s
                    \<and> (\<forall>c'. cell_agents w' c' = removeAll s (cell_agents w c'))
                    \<and> (\<forall>acts w''. s < next_id w \<and> Some s \<notin> set (map actor acts)
                            \<and> run acts w' = Inr w''
                          \<longrightarrow> gone w'' s
                            \<and> (\<forall>c'. s \<notin> set (filter (is_sheep w'') (cell_agents w'' c'))))"
    using 4 5 by blast
  show ?thesis
    using False f sc ss 1 2 3 45 by blast
qed

theorem Wolf_feed_eats_one_sheep_witness:
  "Wolf_feed corridor 5 = Inr corridor
   \<and> (\<exists>w'. Wolf_feed meadow 14 = Inr w'
         \<and> agents w' 14 = Some (Animal \<lparr>variant = Wolf, energy = 9, p_reproduce = 1,
                                         energy_from_food = 4, cell = Some 3\<rparr>)
         \<and> registered w' = {10, 11, 12, 13, 14}
         \<and> cell_agents w' 3 = [11, 14]
         \<and> gone w' 15
         \<and> run [Feed 14] w' = Inr w'
         \<and> 15 \<notin> set (filter (is_sheep w') (cell_agents w' 3)))"
proof -
  have 1: "Wolf_feed corridor 5 = Inr corridor"
    using Wolf_feed_eats_one_sheep [OF corridor_simps(2) _ cell_of refl refl]
    by (simp add: corridor_simps corridor_kinds)
  have v: "variant \<lparr>variant = Wolf, energy = 5, p_reproduce = 1,
                        energy_from_food = 4, cell = Some 3\<rparr> = Wolf" by simp
  have sh: "filter (is_sheep meadow) (cell_agents meadow 3) = [15]"
    by (simp add: meadow_simps meadow_kinds)
  from Wolf_feed_eats_one_sheep [OF meadow_simps(5) v cell_of refl refl, unfolded sh]
    meadow_occupancy_ok
  obtain w' where f: "Wolf_feed meadow 14 = Inr w'"
    and a: "agents w' 14 = Some (Animal \<lparr>variant = Wolf, energy = 9, p_reproduce = 1,
                                         energy_from_food = 4, cell = Some 3\<rparr>)"
    and r: "registered w' = registered meadow - {15}"
    and o: "\<forall>i. i \<noteq> 14 \<and> i \<noteq> 15 \<longrightarrow> agents w' i = agents meadow i"
    and g: "gone w' 15"
    and c: "\<forall>c'. cell_agents w' c' = removeAll 15 (cell_agents meadow c')"
    and q: "\<forall>acts w''. 15 < next_id meadow \<and> Some 15 \<notin> set (map actor acts)
                 \<and> run acts w' = Inr w''
               \<longrightarrow> gone w'' 15
                 \<and> (\<forall>c'. 15 \<notin> set (filter (is_sheep w'') (cell_agents w'' c')))"
    by auto
  from o have "agents w' 11 = agents meadow 11" by simp
  with a c have "Wolf_feed w' 14 = Inr w'"
    by (simp add: Wolf_feed_def meadow_simps is_sheep_def)
  with a have n: "run [Feed 14] w' = Inr w'" by (simp add: Animal_feed_def)
  from q [rule_format, of "[Feed 14]" w'] n
  have "15 \<notin> set (filter (is_sheep w') (cell_agents w' 3))"
    by (simp add: meadow_simps) blast
  with n f a r g c have "Wolf_feed meadow 14 = Inr w'
         \<and> agents w' 14 = Some (Animal \<lparr>variant = Wolf, energy = 9, p_reproduce = 1,
                                         energy_from_food = 4, cell = Some 3\<rparr>)
         \<and> registered w' = {10, 11, 12, 13, 14}
         \<and> cell_agents w' 3 = [11, 14]
         \<and> gone w' 15
         \<and> run [Feed 14] w' = Inr w'
         \<and> 15 \<notin> set (filter (is_sheep w') (cell_agents w' 3))"
    by (auto simp: meadow_simps)
  with 1 show ?thesis by blast
qed

subsection \<open>The grass patch automaton\<close>

text \<open>
  What each operation does to the grass, the pending events and the clock. Moving,
  metabolizing, a wolf's meal, a death and a birth leave all three as they are.
\<close>

lemma patches_upd_animal [simp]:
  "patches (w\<lparr>agents := (agents w)(i \<mapsto> Animal y)\<rparr>) =
     (patches w)(i := None)"
  by (rule ext) (simp add: patches_def)

lemma patches_animal: "agents w i = Some (Animal x) \<Longrightarrow> patches w i = None"
  by (simp add: patches_def)

lemma patches_none: "agents w i = None \<Longrightarrow> patches w i = None"
  by (simp add: patches_def)

lemma patches_fields [simp]:
  "patches (w\<lparr>rng := r\<rparr>) = patches w"
  "patches (w\<lparr>registered := s\<rparr>) = patches w"
  "patches (w\<lparr>events := e\<rparr>) = patches w"
  "patches (w\<lparr>time := t\<rparr>) = patches w"
  "patches (w\<lparr>next_id := n\<rparr>) = patches w"
  "patches (w\<lparr>cell_agents := ca\<rparr>) = patches w"
  by (rule ext, simp add: patches_def)+

lemma set_cell_grass:
  assumes "patches w i = None"
  shows "patches (set_cell w i x c) = patches w" "events (set_cell w i x c) = events w"
        "time (set_cell w i x c) = time w" "next_id (set_cell w i x c) = next_id w"
proof -
  show "patches (set_cell w i x c) = patches w"
    using assms by (auto simp: patches_def set_cell_fields fun_eq_iff)
qed (simp_all add: set_cell_fields)

lemma set_cell_dom:
  "agents w i \<noteq> None \<Longrightarrow> (agents (set_cell w i x c) j \<noteq> None) = (agents w j \<noteq> None)"
  by (simp add: set_cell_fields)

lemma Animal_move_grass:
  assumes "Animal_move w a = Inr w'"
  shows "grass_same w w' \<and> next_id w' = next_id w
       \<and> (\<forall>j. (agents w' j \<noteq> None) = (agents w j \<noteq> None))"
  using assms
  by (auto simp: grass_same_def Animal_move_def Sheep_move_def Wolf_move_def Let_def
      select_random_cell_def random_choice_def set_cell_grass patches_animal set_cell_fields
      split: option.splits agent.splits kind.splits if_splits)

lemma metabolize_grass:
  assumes "metabolize w a = Inr w'"
  shows "grass_same w w' \<and> next_id w' = next_id w
       \<and> (\<forall>j. (agents w' j \<noteq> None) = (agents w j \<noteq> None))"
  using assms
  by (auto simp: grass_same_def metabolize_def patches_animal fun_upd_idem
      split: option.splits agent.splits if_splits)

lemma Agent_remove_grass:
  assumes "Agent_remove w a = Inr w'"
  shows "grass_same w w' \<and> next_id w' = next_id w
       \<and> (\<forall>j. (agents w' j \<noteq> None) = (agents w j \<noteq> None))"
  using assms
  by (auto simp: grass_same_def Agent_remove_def set_cell_grass patches_animal set_cell_fields
      split: option.splits agent.splits if_splits)

lemma Wolf_feed_grass:
  assumes "Wolf_feed w a = Inr w'"
  shows "grass_same w w' \<and> next_id w' = next_id w
       \<and> (\<forall>j. (agents w' j \<noteq> None) = (agents w j \<noteq> None))"
proof (cases "w' = w")
  case True
  then show ?thesis by (simp add: grass_same_def)
next
  case False
  with assms obtain x s where x: "agents w a = Some (Animal x)" and
    r: "Agent_remove (w\<lparr>rng := stl (rng w),
            agents := (agents w)(a \<mapsto> Animal (x\<lparr>energy := energy x + energy_from_food x\<rparr>))\<rparr>) s
         = Inr w'"
    by (auto simp: Wolf_feed_def Let_def random_choice_def
        split: option.splits if_splits agent.splits)
  from Agent_remove_grass [OF r] x show ?thesis
    by (auto simp: grass_same_def patches_def fun_eq_iff)
qed

lemma Animal_init_grass:
  assumes "fresh w"
  shows "grass_same w (Animal_init w k e p f c) \<and> fresh (Animal_init w k e p f c)
       \<and> next_id w \<le> next_id (Animal_init w k e p f c)"
proof -
  from assms have "agents w (next_id w) = None" by (auto simp: fresh_def)
  then show ?thesis
    using assms
    by (auto simp: grass_same_def Animal_init_def Let_def set_cell_fields fresh_def
        patches_def fun_eq_iff less_Suc_eq)
qed

lemma fresh_same_dom:
  "fresh w \<Longrightarrow> next_id w \<le> next_id w' \<Longrightarrow>
   (\<forall>j. (agents w' j \<noteq> None) = (agents w j \<noteq> None)) \<Longrightarrow> fresh w'"
  by (auto simp: fresh_def)

lemma growing_patches:
  "growing w p = (case patches w p of Some g \<Rightarrow> \<not> fully_grown g | None \<Rightarrow> False)"
  by (simp add: growing_def patches_def split: option.splits agent.splits)

lemma grass_same_ok:
  assumes "grass_same w w'" and "fresh w'" and "grass_ok w"
  shows "grass_ok w'"
  using assms by (simp add: grass_ok_def grass_same_def growing_patches pending_def)

lemma spawn_offspring_grass:
  assumes "spawn_offspring w a = Inr w'" and "fresh w"
  shows "grass_same w w' \<and> fresh w' \<and> next_id w \<le> next_id w'"
proof -
  from assms(1) obtain x where x: "agents w a = Some (Animal x)"
    by (auto simp: spawn_offspring_def split: option.splits agent.splits)
  let ?x = "x\<lparr>energy := energy x / 2\<rparr>"
  let ?w1 = "w\<lparr>agents := (agents w)(a \<mapsto> Animal ?x)\<rparr>"
  have w': "w' = Animal_init ?w1 (variant ?x) (energy ?x) (p_reproduce ?x)
                   (energy_from_food ?x) (cell ?x)"
    using assms(1) x by (simp add: spawn_offspring_def Let_def)
  have g1: "grass_same w ?w1" using x
    by (simp add: grass_same_def patches_animal fun_upd_idem)
  have f1: "fresh ?w1" using assms(2) x by (auto simp: fresh_def)
  from Animal_init_grass [OF f1] g1 show ?thesis
    unfolding w' by (simp add: grass_same_def)
qed

lemma resolve_grass:
  assumes "resolve w a = Inr w'" and "fresh w"
  shows "grass_same w w' \<and> fresh w' \<and> next_id w \<le> next_id w'"
proof -
  from assms(1) obtain x where x: "agents w a = Some (Animal x)"
    by (auto simp: resolve_def split: option.splits agent.splits)
  show ?thesis
  proof (cases "energy x < 0")
    case True
    with assms(1) x have "Agent_remove w a = Inr w'" by (simp add: resolve_def)
    from Agent_remove_grass [OF this] fresh_same_dom [OF assms(2), of w']
    show ?thesis by simp
  next
    case False
    let ?w1 = "w\<lparr>rng := stl (rng w)\<rparr>"
    have f1: "fresh ?w1" using assms(2) by (simp add: fresh_def)
    have g1: "grass_same w ?w1" by (simp add: grass_same_def)
    from False assms(1) x have "spawn_offspring ?w1 a = Inr w' \<or> w' = ?w1"
      by (auto simp: resolve_def random_random_def split: if_splits)
    then show ?thesis
    proof
      assume "spawn_offspring ?w1 a = Inr w'"
      from spawn_offspring_grass [OF this f1] show ?thesis by (simp add: grass_same_def)
    next
      assume "w' = ?w1"
      with f1 g1 show ?thesis by simp
    qed
  qed
qed

text \<open>
  A sheep's meal either leaves the grass as it is or turns one fully grown patch into a
  patch that is not grown and queues one event for it, due at the current time plus its
  regrowth time. A new patch gets the next id and, when it does not start fully grown,
  one event due at the current time plus the countdown.
\<close>

lemma Sheep_feed_grass:
  assumes "Sheep_feed w a = Inr w'"
  shows "next_id w' = next_id w \<and> time w' = time w
       \<and> (\<forall>j. (agents w' j \<noteq> None) = (agents w j \<noteq> None))
       \<and> (grass_same w w'
          \<or> (\<exists>gp g. patches w gp = Some g \<and> fully_grown g
                \<and> patches w' = (patches w)(gp \<mapsto> g\<lparr>fully_grown := False\<rparr>)
                \<and> events w' = events w @ [(time w + grass_regrowth_time g, gp)]))"
proof (cases "w' = w")
  case True
  then show ?thesis by (simp add: grass_same_def)
next
  case False
  with assms obtain x c gp where x: "agents w a = Some (Animal x)" "cell x = Some c"
    and gp: "find (is_grass_patch w) (cell_agents w c) = Some gp" "is_grown_patch w gp"
    and s: "set_fully_grown
              (w\<lparr>agents := (agents w)
                    (a \<mapsto> Animal (x\<lparr>energy := energy x + energy_from_food x\<rparr>))\<rparr>) gp False
            = Inr w'"
    by (auto simp: Sheep_feed_def split: option.splits agent.splits if_splits)
  from gp(2) obtain g where g: "agents w gp = Some (GrassPatch g)" "fully_grown g"
    by (auto simp: is_grown_patch_def split: option.splits agent.splits)
  with x have ne: "gp \<noteq> a" by auto
  from s g ne x have w': "0 \<le> grass_regrowth_time g"
    "agents w' = (agents w)(a \<mapsto> Animal (x\<lparr>energy := energy x + energy_from_food x\<rparr>),
                            gp \<mapsto> GrassPatch (g\<lparr>fully_grown := False\<rparr>))"
    "events w' = events w @ [(time w + grass_regrowth_time g, gp)]"
    "time w' = time w" "next_id w' = next_id w"
    by (auto simp: set_fully_grown_def schedule_event_relative_def Let_def split: if_splits)
  have p: "patches w' = (patches w)(gp \<mapsto> g\<lparr>fully_grown := False\<rparr>)"
    using x g ne by (auto simp: patches_def w'(2) fun_eq_iff)
  have "patches w gp = Some g" using g by (simp add: patches_def)
  with p w' g x show ?thesis by (auto simp: w'(2))
qed

lemma Animal_feed_grass:
  assumes "Animal_feed w a = Inr w'"
  shows "next_id w' = next_id w \<and> time w' = time w
       \<and> (\<forall>j. (agents w' j \<noteq> None) = (agents w j \<noteq> None))
       \<and> (grass_same w w'
          \<or> (\<exists>gp g. patches w gp = Some g \<and> fully_grown g
                \<and> patches w' = (patches w)(gp \<mapsto> g\<lparr>fully_grown := False\<rparr>)
                \<and> events w' = events w @ [(time w + grass_regrowth_time g, gp)]))"
proof -
  from assms have "Sheep_feed w a = Inr w' \<or> Wolf_feed w a = Inr w'"
    by (auto simp: Animal_feed_def split: option.splits agent.splits kind.splits)
  then show ?thesis
  proof
    assume "Sheep_feed w a = Inr w'"
    from Sheep_feed_grass [OF this] show ?thesis .
  next
    assume "Wolf_feed w a = Inr w'"
    from Wolf_feed_grass [OF this] show ?thesis by (simp add: grass_same_def)
  qed
qed

lemma GrassPatch_init_grass:
  assumes "GrassPatch_init w cd r c = Inr w'" and "fresh w"
  shows "patches w (next_id w) = None
       \<and> patches w' = (patches w)(next_id w \<mapsto>
             \<lparr>fully_grown = (cd = 0), grass_regrowth_time = r, patch_cell = c\<rparr>)
       \<and> events w' = (if cd = 0 then events w else events w @ [(time w + cd, next_id w)])
       \<and> time w' = time w \<and> next_id w' = Suc (next_id w) \<and> fresh w'"
proof -
  from assms(2) have n: "agents w (next_id w) = None" by (auto simp: fresh_def)
  then have "patches w (next_id w) = None" by (simp add: patches_def)
  then show ?thesis
    using assms
    by (auto simp: GrassPatch_init_def Let_def place_def schedule_event_relative_def
        patches_def fresh_def fun_eq_iff less_Suc_eq split: if_splits)
qed

text \<open>
  The start of a tick: the clock advances by one, every patch with an event due by the
  new time is fully grown afterwards, and the events due are no longer pending.
\<close>

lemma set_fully_grown_True:
  assumes "patches w p = Some g"
  shows "set_fully_grown w p True
           = Inr (w\<lparr>agents := (agents w)(p \<mapsto> GrassPatch (g\<lparr>fully_grown := True\<rparr>))\<rparr>)"
  using assms
  by (auto simp: set_fully_grown_def patches_def split: option.splits agent.splits)

lemma patches_upd_patch:
  "patches (w\<lparr>agents := (agents w)(p \<mapsto> GrassPatch g)\<rparr>) = (patches w)(p \<mapsto> g)"
  by (rule ext) (simp add: patches_def)

lemma apply_events_grass:
  "\<forall>e \<in> set es. patches w (snd e) \<noteq> None \<Longrightarrow>
   \<exists>w'. apply_events es w = Inr w' \<and> events w' = events w \<and> time w' = time w
      \<and> next_id w' = next_id w
      \<and> (\<forall>j. (agents w' j \<noteq> None) = (agents w j \<noteq> None))
      \<and> patches w' = (\<lambda>p. if p \<in> snd ` set es
                             then map_option (\<lambda>g. g\<lparr>fully_grown := True\<rparr>) (patches w p)
                             else patches w p)"
proof (induction es arbitrary: w)
  case Nil
  then show ?case by simp
next
  case (Cons e es)
  then obtain g where g: "patches w (snd e) = Some g" by auto
  let ?w1 = "w\<lparr>agents := (agents w)(snd e \<mapsto> GrassPatch (g\<lparr>fully_grown := True\<rparr>))\<rparr>"
  have s: "set_fully_grown w (snd e) True = Inr ?w1" by (rule set_fully_grown_True [OF g])
  have p1: "patches ?w1 = (patches w)(snd e \<mapsto> g\<lparr>fully_grown := True\<rparr>)"
    by (rule patches_upd_patch)
  have "\<forall>e' \<in> set es. patches ?w1 (snd e') \<noteq> None" using Cons.prems by (simp add: p1)
  from Cons.IH [OF this] obtain w' where w': "apply_events es ?w1 = Inr w'"
    "events w' = events ?w1" "time w' = time ?w1" "next_id w' = next_id ?w1"
    "\<forall>j. (agents w' j \<noteq> None) = (agents ?w1 j \<noteq> None)"
    "patches w' = (\<lambda>p. if p \<in> snd ` set es
                             then map_option (\<lambda>g. g\<lparr>fully_grown := True\<rparr>) (patches ?w1 p)
                             else patches ?w1 p)"
    by blast
  have a: "apply_events (e # es) w = Inr w'" using s w'(1) by simp
  have d: "\<forall>j. (agents w' j \<noteq> None) = (agents w j \<noteq> None)"
    using w'(5) g by (auto simp: patches_def split: option.splits)
  have p: "patches w' = (\<lambda>p. if p \<in> snd ` set (e # es)
                             then map_option (\<lambda>g. g\<lparr>fully_grown := True\<rparr>) (patches w p)
                             else patches w p)"
    unfolding w'(6) p1 using g by (auto simp: fun_eq_iff)
  from a d p w'(2,3,4) show ?case by simp
qed

lemma pending_filter:
  "map fst (filter (\<lambda>e. snd e = p) (filter (\<lambda>e. \<not> fst e \<le> T) es))
     = filter (\<lambda>d. \<not> d \<le> T) (map fst (filter (\<lambda>e. snd e = p) es))"
  by (induction es) auto

lemma event_pending: "(d, p) \<in> set (events w) \<Longrightarrow> d \<in> set (pending w p)"
  by (force simp: pending_def)

lemma advance_time_grass:
  assumes "grass_ok w"
  shows "\<exists>w'. advance_time w = Inr w' \<and> time w' = time w + 1 \<and> next_id w' = next_id w
      \<and> (\<forall>j. (agents w' j \<noteq> None) = (agents w j \<noteq> None))
      \<and> (\<forall>p. pending w' p = filter (\<lambda>d. \<not> d \<le> time w + 1) (pending w p))
      \<and> patches w' = (\<lambda>p. if \<exists>d \<in> set (pending w p). d \<le> time w + 1
                             then map_option (\<lambda>g. g\<lparr>fully_grown := True\<rparr>) (patches w p)
                             else patches w p)"
proof -
  let ?T = "time w + 1"
  let ?due = "sort_key fst (filter (\<lambda>e. fst e \<le> ?T) (events w))"
  let ?w0 = "w\<lparr>time := ?T, events := filter (\<lambda>e. \<not> fst e \<le> ?T) (events w)\<rparr>"
  have "patches w (snd e) \<noteq> None" if "e \<in> set (events w)" for e
  proof -
    from that have "fst e \<in> set (pending w (snd e))" by (force simp: pending_def)
    then have "pending w (snd e) \<noteq> []" by auto
    with assms have "growing w (snd e)" by (simp add: grass_ok_def)
    then show ?thesis by (auto simp: growing_patches split: option.splits)
  qed
  then have "\<forall>e \<in> set ?due. patches ?w0 (snd e) \<noteq> None" by simp
  from apply_events_grass [OF this] obtain w' where w': "apply_events ?due ?w0 = Inr w'"
    "events w' = events ?w0" "time w' = time ?w0" "next_id w' = next_id ?w0"
    "\<forall>j. (agents w' j \<noteq> None) = (agents ?w0 j \<noteq> None)"
    "patches w' = (\<lambda>p. if p \<in> snd ` set ?due
                             then map_option (\<lambda>g. g\<lparr>fully_grown := True\<rparr>) (patches ?w0 p)
                             else patches ?w0 p)"
    by blast
  have a: "advance_time w = Inr w'" using w'(1) by (simp add: advance_time_def fire_due_def)
  have t: "(p \<in> snd ` set ?due) = (\<exists>d \<in> set (pending w p). d \<le> ?T)" for p
    by (force simp: pending_def)
  have pe: "pending w' p = filter (\<lambda>d. \<not> d \<le> ?T) (pending w p)" for p
    unfolding pending_def w'(2) using pending_filter [of p "time w + 1" "events w"]
    by simp
  have pa: "patches w' = (\<lambda>p. if \<exists>d \<in> set (pending w p). d \<le> ?T
                             then map_option (\<lambda>g. g\<lparr>fully_grown := True\<rparr>) (patches w p)
                             else patches w p)"
  proof (rule ext)
    fix p
    show "patches w' p = (if \<exists>d \<in> set (pending w p). d \<le> ?T
                             then map_option (\<lambda>g. g\<lparr>fully_grown := True\<rparr>) (patches w p)
                             else patches w p)"
      using t [of p] by (cases "p \<in> snd ` set ?due") (simp_all only: w'(6) if_True if_False patches_fields)
  qed
  from a w'(3,4,5) pe pa show ?thesis by simp
qed

lemma advance_time_ok:
  assumes "advance_time w = Inr w'" and "grass_ok w"
  shows "grass_ok w'"
proof -
  from advance_time_grass [OF assms(2)] assms(1) have
    n: "next_id w' = next_id w" "\<forall>j. (agents w' j \<noteq> None) = (agents w j \<noteq> None)"
    and pe: "\<And>p. pending w' p = filter (\<lambda>d. \<not> d \<le> time w + 1) (pending w p)"
    and pa: "patches w' = (\<lambda>p. if \<exists>d \<in> set (pending w p). d \<le> time w + 1
                             then map_option (\<lambda>g. g\<lparr>fully_grown := True\<rparr>) (patches w p)
                             else patches w p)"
    by auto
  from assms(2) have "fresh w" by (simp add: grass_ok_def)
  from fresh_same_dom [OF this, of w'] n have f: "fresh w'" by simp
  have "growing w' p \<and> length (pending w' p) = 1" if "pending w' p \<noteq> []" for p
  proof -
    from that pe have ne: "pending w p \<noteq> []" by auto
    with assms(2) have g: "growing w p" and l: "length (pending w p) = 1"
      by (simp_all add: grass_ok_def)
    from l obtain d where d: "pending w p = [d]" by (cases "pending w p") auto
    with that pe [of p] have late: "\<not> d \<le> time w + 1" by (auto split: if_splits)
    with d pe [of p] have 1: "pending w' p = [d]" by simp
    from d late have "patches w' p = patches w p" by (simp add: pa)
    with g 1 show ?thesis by (simp add: growing_patches)
  qed
  with f show ?thesis by (simp add: grass_ok_def)
qed

text \<open>
  Every action keeps the invariant: ids are given out in order, and every pending event
  is the only one of its target, a patch that is not grown.
\<close>

lemma pending_append:
  "pending (w\<lparr>events := events w @ [(d, q)]\<rparr>) p = pending w p @ (if p = q then [d] else [])"
  by (simp add: pending_def)

lemma pending_events: "events w' = events w \<Longrightarrow> pending w' p = pending w p"
  by (simp add: pending_def)

lemma pending_events_append:
  "events w' = events w @ [(d, q)] \<Longrightarrow> pending w' p = pending w p @ (if p = q then [d] else [])"
  by (simp add: pending_def)

lemma new_event_ok:
  assumes "grass_ok w" and "fresh w'"
      and "\<not> growing w q"
      and "events w' = events w @ [(d, q)]"
      and "growing w' q"
      and "\<forall>p. p \<noteq> q \<longrightarrow> patches w' p = patches w p"
  shows "grass_ok w'"
proof -
  from assms(1,3) have q: "pending w q = []" by (auto simp: grass_ok_def)
  have "growing w' p \<and> length (pending w' p) = 1" if "pending w' p \<noteq> []" for p
  proof (cases "p = q")
    case True
    with q assms(4,5) show ?thesis by (simp add: pending_events_append)
  next
    case False
    with that assms(4) have "pending w p \<noteq> []" "pending w' p = pending w p"
      by (simp_all add: pending_events_append)
    with assms(1,6) False show ?thesis by (simp add: grass_ok_def growing_patches)
  qed
  with assms(2) show ?thesis by (simp add: grass_ok_def)
qed

lemma Animal_feed_ok:
  assumes "Animal_feed w a = Inr w'" and "grass_ok w"
  shows "grass_ok w'"
proof -
  from assms(2) have "fresh w" by (simp add: grass_ok_def)
  from Animal_feed_grass [OF assms(1)] fresh_same_dom [OF this, of w']
  have f: "fresh w'" and
    c: "grass_same w w'
          \<or> (\<exists>gp g. patches w gp = Some g \<and> fully_grown g
                \<and> patches w' = (patches w)(gp \<mapsto> g\<lparr>fully_grown := False\<rparr>)
                \<and> events w' = events w @ [(time w + grass_regrowth_time g, gp)])"
    by auto
  from c show ?thesis
  proof
    assume "grass_same w w'"
    from grass_same_ok [OF this f assms(2)] show ?thesis .
  next
    assume "\<exists>gp g. patches w gp = Some g \<and> fully_grown g
                \<and> patches w' = (patches w)(gp \<mapsto> g\<lparr>fully_grown := False\<rparr>)
                \<and> events w' = events w @ [(time w + grass_regrowth_time g, gp)]"
    then obtain gp g where g: "patches w gp = Some g" "fully_grown g"
      "patches w' = (patches w)(gp \<mapsto> g\<lparr>fully_grown := False\<rparr>)"
      "events w' = events w @ [(time w + grass_regrowth_time g, gp)]" by blast
    show ?thesis
      by (rule new_event_ok [OF assms(2) f _ g(4)]) (simp_all add: growing_patches g)
  qed
qed

lemma GrassPatch_init_ok:
  assumes "GrassPatch_init w cd r c = Inr w'" and "grass_ok w"
  shows "grass_ok w'"
proof -
  from assms(2) have fw: "fresh w" by (simp add: grass_ok_def)
  from GrassPatch_init_grass [OF assms(1) fw] have
    n: "patches w (next_id w) = None"
    and p: "patches w' = (patches w)(next_id w \<mapsto>
             \<lparr>fully_grown = (cd = 0), grass_regrowth_time = r, patch_cell = c\<rparr>)"
    and e: "events w' = (if cd = 0 then events w else events w @ [(time w + cd, next_id w)])"
    and f: "fresh w'" by auto
  from n have ng: "\<not> growing w (next_id w)" by (simp add: growing_patches)
  show ?thesis
  proof (cases "cd = 0")
    case True
    from ng assms(2) have q: "pending w (next_id w) = []" by (auto simp: grass_ok_def)
    have "growing w' p \<and> length (pending w' p) = 1" if "pending w' p \<noteq> []" for p
    proof -
      from that e True have ne: "pending w p \<noteq> []" "pending w' p = pending w p"
        by (simp_all add: pending_def)
      with q have "p \<noteq> next_id w" by auto
      with ne assms(2) p show ?thesis by (simp add: grass_ok_def growing_patches)
    qed
    with f show ?thesis by (simp add: grass_ok_def)
  next
    case False
    show ?thesis
      by (rule new_event_ok [OF assms(2) f ng, of "time w + cd"])
         (use False e p in \<open>simp_all add: growing_patches\<close>)
  qed
qed

lemma Animal_step_ok:
  assumes "Animal_step w a = Inr w'" and "grass_ok w"
  shows "grass_ok w'"
proof -
  from assms(1) obtain w1 w2 w3 where
    m: "Animal_move w a = Inr w1" and b: "metabolize w1 a = Inr w2"
    and f: "Animal_feed w2 a = Inr w3" and r: "resolve w3 a = Inr w'"
    by (auto simp: Animal_step_def split: sum.splits)
  from assms(2) have fw: "fresh w" by (simp add: grass_ok_def)
  from Animal_move_grass [OF m] fresh_same_dom [OF fw, of w1]
  have 1: "grass_ok w1" by (auto intro: grass_same_ok [OF _ _ assms(2)])
  then have f1: "fresh w1" by (simp add: grass_ok_def)
  from metabolize_grass [OF b] fresh_same_dom [OF f1, of w2]
  have 2: "grass_ok w2" by (auto intro: grass_same_ok [OF _ _ 1])
  from Animal_feed_ok [OF f 2] have 3: "grass_ok w3" .
  then have f3: "fresh w3" by (simp add: grass_ok_def)
  from resolve_grass [OF r f3] show ?thesis by (auto intro: grass_same_ok [OF _ _ 3])
qed

lemma perform_ok:
  assumes "perform x w = Inr w'" and "grass_ok w"
  shows "grass_ok w'"
proof -
  from assms(2) have fw: "fresh w" by (simp add: grass_ok_def)
  show ?thesis
  proof (cases x)
    case Tick
    with assms advance_time_ok show ?thesis by simp
  next
    case (New_patch cd r c)
    with assms GrassPatch_init_ok show ?thesis by simp
  next
    case (New_animal k e p f c)
    with assms Animal_init_grass [OF fw, of k e p f c] show ?thesis
      by (auto intro: grass_same_ok)
  next
    case (Move a)
    with assms Animal_move_grass [of w a w'] fresh_same_dom [OF fw, of w'] show ?thesis
      by (auto intro: grass_same_ok)
  next
    case (Metabolize a)
    with assms metabolize_grass [of w a w'] fresh_same_dom [OF fw, of w'] show ?thesis
      by (auto intro: grass_same_ok)
  next
    case (Feed a)
    with assms Animal_feed_ok show ?thesis by simp
  next
    case (Resolve a)
    with assms resolve_grass [of w a w'] fw show ?thesis by (auto intro: grass_same_ok)
  next
    case (Step a)
    with assms Animal_step_ok show ?thesis by simp
  qed
qed

lemma run_ok: "run acts w = Inr w' \<Longrightarrow> grass_ok w \<Longrightarrow> grass_ok w'"
proof (induction acts arbitrary: w)
  case Nil
  then show ?case by simp
next
  case (Cons x xs)
  then obtain w1 where 1: "perform x w = Inr w1" and 2: "run xs w1 = Inr w'"
    by (auto split: sum.splits)
  from Cons.IH [OF 2 perform_ok [OF 1 Cons.prems(2)]] show ?case .
qed

lemma empty_world_ok: "grass_ok (empty_world nbh seed t)"
  by (simp add: grass_ok_def fresh_def empty_world_def pending_def)

text \<open>
  A patch that is not grown and has one pending event stays so, with the same event,
  through every action up to the tick at which the event is due; the clock never goes
  back; and the tick at which the event is due makes the patch fully grown.
\<close>

lemma is_grown_patches:
  "is_grown_patch w p = (case patches w p of Some g \<Rightarrow> fully_grown g | None \<Rightarrow> False)"
  by (simp add: is_grown_patch_def patches_def split: option.splits agent.splits)

lemma waiting_kept:
  assumes "grass_same w w'
          \<or> (\<exists>gp g. patches w gp = Some g \<and> fully_grown g
                \<and> patches w' = (patches w)(gp \<mapsto> g\<lparr>fully_grown := False\<rparr>)
                \<and> events w' = events w @ [(time w + grass_regrowth_time g, gp)])"
      and "growing w p" and "pending w p = [d]"
  shows "growing w' p \<and> pending w' p = [d]"
  using assms(1)
proof
  assume "grass_same w w'"
  with assms(2,3) show ?thesis by (simp add: grass_same_def growing_patches pending_def)
next
  assume "\<exists>gp g. patches w gp = Some g \<and> fully_grown g
                \<and> patches w' = (patches w)(gp \<mapsto> g\<lparr>fully_grown := False\<rparr>)
                \<and> events w' = events w @ [(time w + grass_regrowth_time g, gp)]"
  then obtain gp g where g: "patches w gp = Some g" "fully_grown g"
      "patches w' = (patches w)(gp \<mapsto> g\<lparr>fully_grown := False\<rparr>)"
      "events w' = events w @ [(time w + grass_regrowth_time g, gp)]" by blast
  from g(1,2) assms(2) have "p \<noteq> gp" by (auto simp: growing_patches)
  with g assms(2,3) show ?thesis by (simp add: growing_patches pending_events_append)
qed

lemma Animal_step_waiting:
  assumes "Animal_step w a = Inr w'" and "grass_ok w"
      and "growing w p" and "pending w p = [d]"
  shows "growing w' p \<and> pending w' p = [d] \<and> time w' = time w"
proof -
  from assms(1) obtain w1 w2 w3 where
    m: "Animal_move w a = Inr w1" and b: "metabolize w1 a = Inr w2"
    and f: "Animal_feed w2 a = Inr w3" and r: "resolve w3 a = Inr w'"
    by (auto simp: Animal_step_def split: sum.splits)
  have ok3: "grass_ok w3"
    using run_ok [of "[Move a, Metabolize a, Feed a]" w w3] m b f assms(2) by simp
  then have f3: "fresh w3" by (simp add: grass_ok_def)
  from Animal_move_grass [OF m] waiting_kept [of w w1 p d] assms(3,4)
  have 1: "growing w1 p" "pending w1 p = [d]" "time w1 = time w"
    by (auto simp: grass_same_def)
  from metabolize_grass [OF b] waiting_kept [of w1 w2 p d] 1
  have 2: "growing w2 p" "pending w2 p = [d]" "time w2 = time w"
    by (auto simp: grass_same_def)
  from Animal_feed_grass [OF f] waiting_kept [of w2 w3 p d] 2
  have 3: "growing w3 p" "pending w3 p = [d]" "time w3 = time w"
    by auto
  from resolve_grass [OF r f3] waiting_kept [of w3 w' p d] 3
  show ?thesis by (auto simp: grass_same_def)
qed

lemma quiet_waiting:
  assumes "grass_same w w'" and "growing w p" and "pending w p = [d]"
  shows "time w \<le> time w' \<and> (time w' < d \<or> time w' = time w \<longrightarrow> growing w' p \<and> pending w' p = [d])"
proof -
  from assms(1) have "time w' = time w" by (simp add: grass_same_def)
  moreover from waiting_kept [OF disjI1 [OF assms(1)] assms(2,3)]
  have "growing w' p \<and> pending w' p = [d]" .
  ultimately show ?thesis by simp
qed

lemma tick_waiting:
  assumes a: "advance_time w = Inr w'" and "grass_ok w"
      and "growing w p" and "pending w p = [d]"
  shows "time w \<le> time w' \<and> (time w' < d \<or> time w' = time w \<longrightarrow> growing w' p \<and> pending w' p = [d])"
proof -
    from advance_time_grass [OF assms(2)] obtain v where
      v: "advance_time w = Inr v" and t0: "time v = time w + 1"
      and pe0: "\<forall>p. pending v p = filter (\<lambda>d. \<not> d \<le> time w + 1) (pending w p)"
      and pa0: "patches v = (\<lambda>p. if \<exists>d \<in> set (pending w p). d \<le> time w + 1
                             then map_option (\<lambda>g. g\<lparr>fully_grown := True\<rparr>) (patches w p)
                             else patches w p)"
      by blast
    from a v have vw: "v = w'" by simp
    from t0 vw have t: "time w' = time w + 1" by simp
    from pe0 vw assms(4) have pe: "pending w' p = (if d \<le> time w + 1 then [] else [d])"
      by simp
    from pa0 vw have "patches w' p = (if \<exists>d \<in> set (pending w p). d \<le> time w + 1
                             then map_option (\<lambda>g. g\<lparr>fully_grown := True\<rparr>) (patches w p)
                             else patches w p)" by simp
    with assms(4) have pp: "time w + 1 < d \<longrightarrow> patches w' p = patches w p" by simp
    from assms(3) pp have "time w + 1 < d \<longrightarrow> growing w' p" by (simp add: growing_patches)
    with t pe show ?thesis by simp
qed

lemma new_patch_waiting:
  assumes i: "GrassPatch_init w cd r c = Inr w'" and "grass_ok w"
      and "growing w p" and "pending w p = [d]"
  shows "time w \<le> time w' \<and> (time w' < d \<or> time w' = time w \<longrightarrow> growing w' p \<and> pending w' p = [d])"
proof -
  from assms(2) have fw: "fresh w" by (simp add: grass_ok_def)
  note G = GrassPatch_init_grass [OF i fw]
  from G have n: "patches w (next_id w) = None" by (rule conjunct1)
  from G have p: "patches w' = (patches w)(next_id w \<mapsto>
             \<lparr>fully_grown = (cd = 0), grass_regrowth_time = r, patch_cell = c\<rparr>)"
    by (rule conjunct2 [THEN conjunct1])
  from G have e: "events w' = (if cd = 0 then events w else events w @ [(time w + cd, next_id w)])"
    by (rule conjunct2 [THEN conjunct2, THEN conjunct1])
  from G have t: "time w' = time w"
    by (rule conjunct2 [THEN conjunct2, THEN conjunct2, THEN conjunct1])
  from n assms(3) have ne: "p \<noteq> next_id w" by (auto simp: growing_patches)
  from ne p have "patches w' p = patches w p" by simp
  with assms(3) have g: "growing w' p" by (simp add: growing_patches)
  have "pending w' p = [d]"
  proof (cases "cd = 0")
    case True
    with e have "events w' = events w" by simp
    from pending_events [OF this] assms(4) show ?thesis by simp
  next
    case False
    with e have "events w' = events w @ [(time w + cd, next_id w)]" by simp
    from pending_events_append [OF this, of p] ne assms(4) show ?thesis by simp
  qed
  with g t show ?thesis by simp
qed

lemma feed_waiting:
  assumes f: "Animal_feed w a = Inr w'"
      and "growing w p" and "pending w p = [d]"
  shows "time w \<le> time w' \<and> (time w' < d \<or> time w' = time w \<longrightarrow> growing w' p \<and> pending w' p = [d])"
proof -
  note F = Animal_feed_grass [OF f]
  from F have t: "time w' = time w" by (rule conjunct2 [THEN conjunct1])
  from F have c: "grass_same w w'
          \<or> (\<exists>gp g. patches w gp = Some g \<and> fully_grown g
                \<and> patches w' = (patches w)(gp \<mapsto> g\<lparr>fully_grown := False\<rparr>)
                \<and> events w' = events w @ [(time w + grass_regrowth_time g, gp)])"
    by (rule conjunct2 [THEN conjunct2, THEN conjunct2])
  from waiting_kept [OF c assms(2,3)] have "growing w' p \<and> pending w' p = [d]" .
  with t show ?thesis by simp
qed

lemma perform_waiting:
  assumes "perform x w = Inr w'" and "grass_ok w"
      and "growing w p" and "pending w p = [d]"
  shows "time w \<le> time w' \<and> (time w' < d \<or> time w' = time w \<longrightarrow> growing w' p \<and> pending w' p = [d])"
proof -
  from assms(2) have fw: "fresh w" by (simp add: grass_ok_def)
  show ?thesis
  proof (cases x)
    case Tick
    with assms(1) have a: "advance_time w = Inr w'" by simp
    from tick_waiting [OF a assms(2,3,4)] show ?thesis .
  next
    case (New_patch cd r c)
    with assms(1) have i: "GrassPatch_init w cd r c = Inr w'" by simp
    from new_patch_waiting [OF i assms(2,3,4)] show ?thesis .
  next
    case (New_animal k e q f c)
    with assms(1) have "w' = Animal_init w k e q f c" by simp
    with Animal_init_grass [OF fw, of k e q f c] have "grass_same w w'" by simp
    from quiet_waiting [OF this assms(3,4)] show ?thesis .
  next
    case (Move a)
    with assms(1) have "Animal_move w a = Inr w'" by simp
    from Animal_move_grass [OF this] have "grass_same w w'" by simp
    from quiet_waiting [OF this assms(3,4)] show ?thesis .
  next
    case (Metabolize a)
    with assms(1) have "metabolize w a = Inr w'" by simp
    from metabolize_grass [OF this] have "grass_same w w'" by simp
    from quiet_waiting [OF this assms(3,4)] show ?thesis .
  next
    case (Feed a)
    with assms(1) have "Animal_feed w a = Inr w'" by simp
    from feed_waiting [OF this assms(3,4)] show ?thesis .
  next
    case (Resolve a)
    with assms(1) have "resolve w a = Inr w'" by simp
    from resolve_grass [OF this fw] have "grass_same w w'" by simp
    from quiet_waiting [OF this assms(3,4)] show ?thesis .
  next
    case (Step a)
    with assms(1) have "Animal_step w a = Inr w'" by simp
    from Animal_step_waiting [OF this assms(2,3,4)] show ?thesis by simp
  qed
qed

lemma Animal_step_time:
  assumes "Animal_step w a = Inr w'" and "grass_ok w"
  shows "time w' = time w"
proof -
  from assms(1) obtain w1 w2 w3 where
    m: "Animal_move w a = Inr w1" and b: "metabolize w1 a = Inr w2"
    and f: "Animal_feed w2 a = Inr w3" and r: "resolve w3 a = Inr w'"
    by (auto simp: Animal_step_def split: sum.splits)
  have "grass_ok w3"
    using run_ok [of "[Move a, Metabolize a, Feed a]" w w3] m b f assms(2) by simp
  then have f3: "fresh w3" by (simp add: grass_ok_def)
  from Animal_move_grass [OF m] have 1: "time w1 = time w" by (simp add: grass_same_def)
  from metabolize_grass [OF b] have 2: "time w2 = time w1" by (simp add: grass_same_def)
  from Animal_feed_grass [OF f] have 3: "time w3 = time w2"
    by (rule conjunct2 [THEN conjunct1])
  from resolve_grass [OF r f3] have 4: "time w' = time w3" by (simp add: grass_same_def)
  from 1 2 3 4 show ?thesis by simp
qed

lemma perform_time:
  assumes "perform x w = Inr w'" and "grass_ok w"
  shows "time w \<le> time w'"
proof -
  from assms(2) have fw: "fresh w" by (simp add: grass_ok_def)
  show ?thesis
  proof (cases x)
    case Tick
    with assms(1) have a: "advance_time w = Inr w'" by simp
    from advance_time_grass [OF assms(2)] obtain v where
      "advance_time w = Inr v" and "time v = time w + 1" by blast
    with a show ?thesis by simp
  next
    case (Step a)
    with assms(1) have "Animal_step w a = Inr w'" by simp
    from Animal_step_time [OF this assms(2)] show ?thesis by simp
  next
    case (New_patch cd r c)
    with assms(1) have i: "GrassPatch_init w cd r c = Inr w'" by simp
    from GrassPatch_init_grass [OF i fw] have "time w' = time w"
      by (rule conjunct2 [THEN conjunct2, THEN conjunct2, THEN conjunct1])
    then show ?thesis by simp
  next
    case (New_animal k e q f c)
    with assms(1) have "w' = Animal_init w k e q f c" by simp
    with Animal_init_grass [OF fw, of k e q f c] show ?thesis by (simp add: grass_same_def)
  next
    case (Move a)
    with assms(1) have "Animal_move w a = Inr w'" by simp
    from Animal_move_grass [OF this] show ?thesis by (simp add: grass_same_def)
  next
    case (Metabolize a)
    with assms(1) have "metabolize w a = Inr w'" by simp
    from metabolize_grass [OF this] show ?thesis by (simp add: grass_same_def)
  next
    case (Feed a)
    with assms(1) have "Animal_feed w a = Inr w'" by simp
    from Animal_feed_grass [OF this] have "time w' = time w"
      by (rule conjunct2 [THEN conjunct1])
    then show ?thesis by simp
  next
    case (Resolve a)
    with assms(1) have "resolve w a = Inr w'" by simp
    from resolve_grass [OF this fw] show ?thesis by (simp add: grass_same_def)
  qed
qed

lemma run_time: "run acts w = Inr w' \<Longrightarrow> grass_ok w \<Longrightarrow> time w \<le> time w'"
proof (induction acts arbitrary: w)
  case Nil
  then show ?case by simp
next
  case (Cons x xs)
  then obtain w1 where 1: "perform x w = Inr w1" and 2: "run xs w1 = Inr w'"
    by (auto split: sum.splits)
  from perform_time [OF 1 Cons.prems(2)] Cons.IH [OF 2 perform_ok [OF 1 Cons.prems(2)]]
  show ?case by simp
qed

lemma run_waiting:
  "run acts w = Inr w' \<Longrightarrow> grass_ok w \<Longrightarrow> growing w p \<Longrightarrow> pending w p = [d] \<Longrightarrow>
   time w' < d \<or> time w' = time w \<Longrightarrow> growing w' p \<and> pending w' p = [d]"
proof (induction acts arbitrary: w)
  case Nil
  then show ?case by simp
next
  case (Cons x xs)
  then obtain w1 where 1: "perform x w = Inr w1" and 2: "run xs w1 = Inr w'"
    by (auto split: sum.splits)
  have ok1: "grass_ok w1" by (rule perform_ok [OF 1 Cons.prems(2)])
  from perform_time [OF 1 Cons.prems(2)] have a: "time w \<le> time w1" .
  from run_time [OF 2 ok1] have b: "time w1 \<le> time w'" .
  from a b Cons.prems(5) have c: "time w1 < d \<or> time w1 = time w" by arith
  from a b Cons.prems(5) have e: "time w' < d \<or> time w' = time w1" by arith
  from perform_waiting [OF 1 Cons.prems(2,3,4)] c
  have "growing w1 p" "pending w1 p = [d]" by simp_all
  from Cons.IH [OF 2 ok1 this e] show ?case .
qed

lemma regrowth_fires:
  assumes "grass_ok w" and "growing w p" and "pending w p = [d]" and "d \<le> time w + 1"
  shows "\<exists>w'. advance_time w = Inr w' \<and> time w' = time w + 1 \<and> is_grown_patch w' p
            \<and> pending w' p = []"
proof -
  from advance_time_grass [OF assms(1)] obtain w' where
    a: "advance_time w = Inr w'" and t: "time w' = time w + 1"
    and pe0: "\<forall>p. pending w' p = filter (\<lambda>d. \<not> d \<le> time w + 1) (pending w p)"
    and pa: "patches w' = (\<lambda>p. if \<exists>d \<in> set (pending w p). d \<le> time w + 1
                             then map_option (\<lambda>g. g\<lparr>fully_grown := True\<rparr>) (patches w p)
                             else patches w p)"
    by blast
  from pe0 have pe: "pending w' p = filter (\<lambda>d. \<not> d \<le> time w + 1) (pending w p)" by simp
  from pa have "patches w' p = (if \<exists>d \<in> set (pending w p). d \<le> time w + 1
                             then map_option (\<lambda>g. g\<lparr>fully_grown := True\<rparr>) (patches w p)
                             else patches w p)" by simp
  with assms(3,4) have "patches w' p = map_option (\<lambda>g. g\<lparr>fully_grown := True\<rparr>) (patches w p)"
    by simp
  with assms(2) have "is_grown_patch w' p"
    by (auto simp: is_grown_patches growing_patches split: option.splits)
  with a t pe assms(3,4) show ?thesis by simp
qed

text \<open>
  An action after which a fully grown patch is no longer grown has queued exactly one
  event for it, due at the current time plus the regrowth time of the patch.
\<close>

lemma grown_not_growing: "is_grown_patch w p \<Longrightarrow> \<not> growing w p"
  by (simp add: is_grown_patches growing_patches split: option.splits)

lemma growing_not_grown: "growing w p \<Longrightarrow> \<not> is_grown_patch w p"
  by (simp add: is_grown_patches growing_patches split: option.splits)

lemma grown_no_pending: "grass_ok w \<Longrightarrow> is_grown_patch w p \<Longrightarrow> pending w p = []"
  using grown_not_growing [of w p] by (auto simp: grass_ok_def)

lemma grass_same_grown: "grass_same w w' \<Longrightarrow> is_grown_patch w' p = is_grown_patch w p"
  by (simp add: grass_same_def is_grown_patches)

lemma feed_consumes:
  assumes f: "Animal_feed w a = Inr w'" and ok: "grass_ok w"
      and g: "is_grown_patch w p" and n: "\<not> is_grown_patch w' p"
  shows "\<exists>g. patches w p = Some g \<and> patches w' p = Some (g\<lparr>fully_grown := False\<rparr>)
            \<and> pending w p = [] \<and> pending w' p = [time w + grass_regrowth_time g]
            \<and> time w' = time w"
proof -
  note F = Animal_feed_grass [OF f]
  from F have t: "time w' = time w" by (rule conjunct2 [THEN conjunct1])
  from F have c: "grass_same w w'
          \<or> (\<exists>gp g. patches w gp = Some g \<and> fully_grown g
                \<and> patches w' = (patches w)(gp \<mapsto> g\<lparr>fully_grown := False\<rparr>)
                \<and> events w' = events w @ [(time w + grass_regrowth_time g, gp)])"
    by (rule conjunct2 [THEN conjunct2, THEN conjunct2])
  from g n grass_same_grown [of w w' p] have "\<not> grass_same w w'" by blast
  with c obtain gp g0 where e: "patches w gp = Some g0" "fully_grown g0"
      "patches w' = (patches w)(gp \<mapsto> g0\<lparr>fully_grown := False\<rparr>)"
      "events w' = events w @ [(time w + grass_regrowth_time g0, gp)]" by blast
  have pg: "p = gp"
  proof (rule ccontr)
    assume "p \<noteq> gp"
    with e(3) have "patches w' p = patches w p" by simp
    with g n show False by (simp add: is_grown_patches)
  qed
  from grown_no_pending [OF ok g] have p0: "pending w p = []" .
  from pending_events_append [OF e(4), of p] pg p0
  have "pending w' p = [time w + grass_regrowth_time g0]" by simp
  moreover from e(3) pg have "patches w' p = Some (g0\<lparr>fully_grown := False\<rparr>)" by simp
  ultimately show ?thesis using e(1) pg p0 t by blast
qed

lemma quiet_consumes:
  assumes "grass_same w w'" and "is_grown_patch w p" and "\<not> is_grown_patch w' p"
  shows "P"
  using assms grass_same_grown [of w w' p] by blast

lemma Animal_step_consumes:
  assumes s: "Animal_step w a = Inr w'" and ok: "grass_ok w"
      and g: "is_grown_patch w p" and n: "\<not> is_grown_patch w' p"
  shows "\<exists>g. patches w p = Some g \<and> patches w' p = Some (g\<lparr>fully_grown := False\<rparr>)
            \<and> pending w p = [] \<and> pending w' p = [time w + grass_regrowth_time g]
            \<and> time w' = time w"
proof -
  from s obtain w1 w2 w3 where
    m: "Animal_move w a = Inr w1" and b: "metabolize w1 a = Inr w2"
    and f: "Animal_feed w2 a = Inr w3" and r: "resolve w3 a = Inr w'"
    by (auto simp: Animal_step_def split: sum.splits)
  have ok2: "grass_ok w2"
    using run_ok [of "[Move a, Metabolize a]" w w2] m b ok by simp
  have ok3: "grass_ok w3"
    using run_ok [of "[Move a, Metabolize a, Feed a]" w w3] m b f ok by simp
  then have f3: "fresh w3" by (simp add: grass_ok_def)
  from Animal_move_grass [OF m] have s1: "grass_same w w1" by simp
  from metabolize_grass [OF b] have s2: "grass_same w1 w2" by simp
  from resolve_grass [OF r f3] have s3: "grass_same w3 w'" by simp
  from s1 s2 have s12: "patches w2 = patches w" "events w2 = events w" "time w2 = time w"
    by (simp_all add: grass_same_def)
  from s3 have s4: "patches w' = patches w3" "events w' = events w3" "time w' = time w3"
    by (simp_all add: grass_same_def)
  from g s12 have g2: "is_grown_patch w2 p" by (simp add: is_grown_patches)
  from n s4 have n3: "\<not> is_grown_patch w3 p" by (simp add: is_grown_patches)
  from feed_consumes [OF f ok2 g2 n3] obtain g0 where
    "patches w2 p = Some g0" "patches w3 p = Some (g0\<lparr>fully_grown := False\<rparr>)"
    "pending w2 p = []" "pending w3 p = [time w2 + grass_regrowth_time g0]"
    "time w3 = time w2" by blast
  with s12 s4 have "patches w p = Some g0 \<and> patches w' p = Some (g0\<lparr>fully_grown := False\<rparr>)
            \<and> pending w p = [] \<and> pending w' p = [time w + grass_regrowth_time g0]
            \<and> time w' = time w"
    by (simp add: pending_def)
  then show ?thesis by blast
qed

lemma perform_consumes:
  assumes x: "perform x w = Inr w'" and ok: "grass_ok w"
      and g: "is_grown_patch w p" and n: "\<not> is_grown_patch w' p"
  shows "\<exists>g. patches w p = Some g \<and> patches w' p = Some (g\<lparr>fully_grown := False\<rparr>)
            \<and> pending w p = [] \<and> pending w' p = [time w + grass_regrowth_time g]
            \<and> time w' = time w"
proof -
  from ok have fw: "fresh w" by (simp add: grass_ok_def)
  show ?thesis
  proof (cases x)
    case Tick
    with x have a: "advance_time w = Inr w'" by simp
    from advance_time_grass [OF ok] obtain v where
      v: "advance_time w = Inr v"
      and pa0: "patches v = (\<lambda>p. if \<exists>d \<in> set (pending w p). d \<le> time w + 1
                             then map_option (\<lambda>g. g\<lparr>fully_grown := True\<rparr>) (patches w p)
                             else patches w p)"
      by blast
    from a v have vw: "v = w'" by simp
    from pa0 vw have "patches w' p = (if \<exists>d \<in> set (pending w p). d \<le> time w + 1
                             then map_option (\<lambda>g. g\<lparr>fully_grown := True\<rparr>) (patches w p)
                             else patches w p)" by simp
    with g have "is_grown_patch w' p"
      by (auto simp: is_grown_patches split: option.splits if_splits)
    with n show ?thesis by simp
  next
    case (New_patch cd r c)
    with x have i: "GrassPatch_init w cd r c = Inr w'" by simp
    note G = GrassPatch_init_grass [OF i fw]
    from G have n0: "patches w (next_id w) = None" by (rule conjunct1)
    from G have p: "patches w' = (patches w)(next_id w \<mapsto>
             \<lparr>fully_grown = (cd = 0), grass_regrowth_time = r, patch_cell = c\<rparr>)"
      by (rule conjunct2 [THEN conjunct1])
    from n0 g have ne: "p \<noteq> next_id w" by (auto simp: is_grown_patches)
    from ne p have "patches w' p = patches w p" by simp
    with g n show ?thesis by (simp add: is_grown_patches)
  next
    case (New_animal k e q f c)
    with x have "w' = Animal_init w k e q f c" by simp
    with Animal_init_grass [OF fw, of k e q f c] have "grass_same w w'" by simp
    from quiet_consumes [OF this g n] show ?thesis .
  next
    case (Move a)
    with x have "Animal_move w a = Inr w'" by simp
    from Animal_move_grass [OF this] have "grass_same w w'" by simp
    from quiet_consumes [OF this g n] show ?thesis .
  next
    case (Metabolize a)
    with x have "metabolize w a = Inr w'" by simp
    from metabolize_grass [OF this] have "grass_same w w'" by simp
    from quiet_consumes [OF this g n] show ?thesis .
  next
    case (Feed a)
    with x have "Animal_feed w a = Inr w'" by simp
    from feed_consumes [OF this ok g n] show ?thesis .
  next
    case (Resolve a)
    with x have "resolve w a = Inr w'" by simp
    from resolve_grass [OF this fw] have "grass_same w w'" by simp
    from quiet_consumes [OF this g n] show ?thesis .
  next
    case (Step a)
    with x have "Animal_step w a = Inr w'" by simp
    from Animal_step_consumes [OF this ok g n] show ?thesis .
  qed
qed

lemma consumed_regrows:
  assumes ok1: "grass_ok w1" and gr: "growing w1 p" and pe: "pending w1 p = [d]"
      and r: "run acts w1 = Inr w2"
  shows "time w1 \<le> time w2
       \<and> (time w2 < d \<or> time w2 = time w1 \<longrightarrow>
            \<not> is_grown_patch w2 p \<and> pending w2 p = [d])
       \<and> (time w2 + 1 = max d (time w1 + 1) \<longrightarrow>
            (\<exists>w3. perform Tick w2 = Inr w3 \<and> time w3 = time w2 + 1
                  \<and> is_grown_patch w3 p \<and> pending w3 p = []))"
proof -
  have ok2: "grass_ok w2" by (rule run_ok [OF r ok1])
  have t: "time w1 \<le> time w2" by (rule run_time [OF r ok1])
  have k: "growing w2 p \<and> pending w2 p = [d]" if "time w2 < d \<or> time w2 = time w1"
    by (rule run_waiting [OF r ok1 gr pe that])
  have a: "time w2 < d \<or> time w2 = time w1 \<longrightarrow>
            \<not> is_grown_patch w2 p \<and> pending w2 p = [d]"
    using k growing_not_grown [of w2 p] by blast
  have b: "\<exists>w3. perform Tick w2 = Inr w3 \<and> time w3 = time w2 + 1
                  \<and> is_grown_patch w3 p \<and> pending w3 p = []"
    if m: "time w2 + 1 = max d (time w1 + 1)"
  proof -
    from m t have c: "time w2 < d \<or> time w2 = time w1" by arith
    from m have e: "d \<le> time w2 + 1" by arith
    from k [OF c] have g2: "growing w2 p" and p2: "pending w2 p = [d]" by simp_all
    from regrowth_fires [OF ok2 g2 p2 e] show ?thesis by simp
  qed
  from t a b show ?thesis by blast
qed

lemma GrassPatch_init_new:
  assumes ok: "grass_ok w"
  shows "(0 \<le> cd \<longrightarrow> (\<exists>w'. GrassPatch_init w cd r c = Inr w'))
       \<and> (\<forall>w'. GrassPatch_init w cd r c = Inr w' \<longrightarrow>
            agents w' (next_id w) = Some (GrassPatch
              \<lparr>fully_grown = (cd = 0), grass_regrowth_time = r, patch_cell = c\<rparr>)
            \<and> is_grown_patch w' (next_id w) = (cd = 0)
            \<and> pending w' (next_id w) = (if cd = 0 then [] else [time w + cd]))"
proof -
  from ok have fw: "fresh w" by (simp add: grass_ok_def)
  have p0: "pending w (next_id w) = []"
  proof (rule ccontr)
    assume "pending w (next_id w) \<noteq> []"
    with ok have "growing w (next_id w)" by (simp add: grass_ok_def)
    then have "agents w (next_id w) \<noteq> None"
      by (auto simp: growing_def split: option.splits)
    with fw show False by (auto simp: fresh_def)
  qed
  have 1: "0 \<le> cd \<longrightarrow> (\<exists>w'. GrassPatch_init w cd r c = Inr w')"
    by (simp add: GrassPatch_init_def Let_def schedule_event_relative_def)
  have 2: "agents w' (next_id w) = Some (GrassPatch
              \<lparr>fully_grown = (cd = 0), grass_regrowth_time = r, patch_cell = c\<rparr>)
            \<and> is_grown_patch w' (next_id w) = (cd = 0)
            \<and> pending w' (next_id w) = (if cd = 0 then [] else [time w + cd])"
    if i: "GrassPatch_init w cd r c = Inr w'" for w'
  proof -
    from i have a: "agents w' (next_id w) = Some (GrassPatch
              \<lparr>fully_grown = (cd = 0), grass_regrowth_time = r, patch_cell = c\<rparr>)"
      by (auto simp: GrassPatch_init_def Let_def place_def schedule_event_relative_def
               split: if_splits)
    then have b: "is_grown_patch w' (next_id w) = (cd = 0)" by (simp add: is_grown_patch_def)
    from GrassPatch_init_grass [OF i fw]
    have e: "events w' = (if cd = 0 then events w else events w @ [(time w + cd, next_id w)])"
      by (rule conjunct2 [THEN conjunct2, THEN conjunct1])
    have c: "pending w' (next_id w) = (if cd = 0 then [] else [time w + cd])"
    proof (cases "cd = 0")
      case True
      with e have "events w' = events w" by simp
      from pending_events [OF this] p0 True show ?thesis by simp
    next
      case False
      with e have "events w' = events w @ [(time w + cd, next_id w)]" by simp
      from pending_events_append [OF this, of "next_id w"] p0 False show ?thesis by simp
    qed
    from a b c show ?thesis by blast
  qed
  from 1 2 show ?thesis by blast
qed

text \<open>The pasture of one cell: how it is reached, and what a step and a tick do to it.\<close>

lemma paddock_reached:
  "run (sowing r) (empty_world no_neighbours (sconst 0) 0) = Inr (paddock True 8 1 [] r)"
  by (auto simp: sowing_def empty_world_def GrassPatch_init_def Animal_init_def set_cell_def
        place_def advance_time_def fire_due_def paddock_def Let_def fun_eq_iff)

lemma paddock_fields:
  "agents (paddock g e t es r) 0
     = Some (GrassPatch \<lparr>fully_grown = g, grass_regrowth_time = r, patch_cell = 0\<rparr>)"
  "agents (paddock g e t es r) (Suc 0)
     = Some (Animal \<lparr>variant = Sheep, energy = e, p_reproduce = 0,
                      energy_from_food = 4, cell = Some 0\<rparr>)"
  "cell_agents (paddock g e t es r) 0 = [0, Suc 0]"
  "neighborhood (paddock g e t es r) c = []"
  "time (paddock g e t es r) = t"
  "events (paddock g e t es r) = es"
  "next_id (paddock g e t es r) = 2"
  "is_grown_patch (paddock g e t es r) 0 = g"
  "pending (paddock g e t es r) 0 = map fst (filter (\<lambda>e. snd e = 0) es)"
  "patches (paddock g e t es r) 0
     = Some \<lparr>fully_grown = g, grass_regrowth_time = r, patch_cell = 0\<rparr>"
  by (simp_all add: paddock_def no_neighbours_def is_grown_patch_def pending_def patches_def)

lemma paddock_eat:
  assumes "0 \<le> r" and "1 \<le> e"
  shows "Animal_step (paddock True e t [] r) (Suc 0)
           = Inr (paddock False (e + 3) t [(t + r, 0)] r)"
  using assms
  by (auto simp: Animal_step_def Animal_move_def Sheep_move_def metabolize_def
        Animal_feed_def Sheep_feed_def set_fully_grown_def schedule_event_relative_def
        resolve_def random_random_def is_grass_patch_def is_grown_patch_def
        paddock_def no_neighbours_def Let_def fun_eq_iff stl_sconst0)

lemma paddock_wait:
  assumes "1 \<le> e"
  shows "Animal_step (paddock False e t es r) (Suc 0) = Inr (paddock False (e - 1) t es r)"
  using assms
  by (auto simp: Animal_step_def Animal_move_def Sheep_move_def metabolize_def
        Animal_feed_def Sheep_feed_def resolve_def random_random_def is_grass_patch_def
        is_grown_patch_def paddock_def no_neighbours_def Let_def fun_eq_iff stl_sconst0)

lemma paddock_tick:
  "advance_time (paddock False e t [(d, 0)] r)
     = Inr (if d \<le> t + 1 then paddock True e (t + 1) [] r
            else paddock False e (t + 1) [(d, 0)] r)"
  by (auto simp: advance_time_def fire_due_def set_fully_grown_def paddock_def fun_eq_iff)

text \<open>
  C3. In every world \<open>w\<close> reached by a history from the empty world: (1) every patch has
  at most one pending regrowth event, and a fully grown patch has none; (2) constructing
  a patch with a countdown that is not negative succeeds, and a constructed patch is
  fully grown exactly when the countdown is 0, with no pending event then and otherwise
  with exactly one, due at the current time plus the countdown; (3) every action after
  which a fully grown patch \<open>p\<close> is no longer grown leaves the clock at its time \<open>t\<close> and
  queues exactly one event for \<open>p\<close>, due at \<open>t + r\<close> for the regrowth time \<open>r\<close> of \<open>p\<close>; and
  then, in every world reached later, \<open>p\<close> is not grown and that event is still its only
  pending one as long as the time is below \<open>t + r\<close> or is still \<open>t\<close>, and the tick that
  brings the clock to the later of \<open>t + r\<close> and \<open>t + 1\<close> makes \<open>p\<close> fully grown again and
  leaves it no pending event. So a patch eaten at tick \<open>t\<close> is fully grown again at tick
  \<open>t + r\<close> and not before when \<open>r\<close> is at least 1, and at tick \<open>t + 1\<close> when \<open>r\<close> is 0: events
  fire when a tick starts, before the agents act.
\<close>

theorem GrassPatch_automaton:
  assumes reach: "run history (empty_world nbh seed t0) = Inr w"
  shows "(\<forall>p. length (pending w p) \<le> 1 \<and> (is_grown_patch w p \<longrightarrow> pending w p = []))
       \<and> (\<forall>cd r c.
            (0 \<le> cd \<longrightarrow> (\<exists>w'. GrassPatch_init w cd r c = Inr w'))
            \<and> (\<forall>w'. GrassPatch_init w cd r c = Inr w' \<longrightarrow>
                 agents w' (next_id w) = Some (GrassPatch
                   \<lparr>fully_grown = (cd = 0), grass_regrowth_time = r, patch_cell = c\<rparr>)
                 \<and> is_grown_patch w' (next_id w) = (cd = 0)
                 \<and> pending w' (next_id w) = (if cd = 0 then [] else [time w + cd])))
       \<and> (\<forall>x w1 p. perform x w = Inr w1 \<and> is_grown_patch w p \<and> \<not> is_grown_patch w1 p \<longrightarrow>
            (\<exists>g. patches w p = Some g \<and> patches w1 p = Some (g\<lparr>fully_grown := False\<rparr>)
               \<and> pending w p = [] \<and> pending w1 p = [time w + grass_regrowth_time g]
               \<and> time w1 = time w
               \<and> (\<forall>acts w2. run acts w1 = Inr w2 \<longrightarrow>
                    time w \<le> time w2
                    \<and> (time w2 < time w + grass_regrowth_time g \<or> time w2 = time w \<longrightarrow>
                         \<not> is_grown_patch w2 p
                         \<and> pending w2 p = [time w + grass_regrowth_time g])
                    \<and> (time w2 + 1 = max (time w + grass_regrowth_time g) (time w + 1) \<longrightarrow>
                         (\<exists>w3. perform Tick w2 = Inr w3 \<and> time w3 = time w2 + 1
                               \<and> is_grown_patch w3 p \<and> pending w3 p = [])))))"
proof -
  have ok: "grass_ok w" by (rule run_ok [OF reach empty_world_ok])
  have 1: "length (pending w p) \<le> 1 \<and> (is_grown_patch w p \<longrightarrow> pending w p = [])" for p
  proof -
    from ok have "pending w p \<noteq> [] \<longrightarrow> length (pending w p) = 1" by (simp add: grass_ok_def)
    then have "length (pending w p) \<le> 1" by (cases "pending w p") simp_all
    with grown_no_pending [OF ok, of p] show ?thesis by blast
  qed
  have 3: "\<exists>g. patches w p = Some g \<and> patches w1 p = Some (g\<lparr>fully_grown := False\<rparr>)
               \<and> pending w p = [] \<and> pending w1 p = [time w + grass_regrowth_time g]
               \<and> time w1 = time w
               \<and> (\<forall>acts w2. run acts w1 = Inr w2 \<longrightarrow>
                    time w \<le> time w2
                    \<and> (time w2 < time w + grass_regrowth_time g \<or> time w2 = time w \<longrightarrow>
                         \<not> is_grown_patch w2 p
                         \<and> pending w2 p = [time w + grass_regrowth_time g])
                    \<and> (time w2 + 1 = max (time w + grass_regrowth_time g) (time w + 1) \<longrightarrow>
                         (\<exists>w3. perform Tick w2 = Inr w3 \<and> time w3 = time w2 + 1
                               \<and> is_grown_patch w3 p \<and> pending w3 p = [])))"
    if h: "perform x w = Inr w1 \<and> is_grown_patch w p \<and> \<not> is_grown_patch w1 p" for x w1 p
  proof -
    from h have x: "perform x w = Inr w1" and g: "is_grown_patch w p"
      and n: "\<not> is_grown_patch w1 p" by simp_all
    from perform_consumes [OF x ok g n] obtain g0 where
      c: "patches w p = Some g0" "patches w1 p = Some (g0\<lparr>fully_grown := False\<rparr>)"
         "pending w p = []" "pending w1 p = [time w + grass_regrowth_time g0]"
         "time w1 = time w" by blast
    have ok1: "grass_ok w1" by (rule perform_ok [OF x ok])
    from c(2) have gr: "growing w1 p" by (simp add: growing_patches)
    have "time w \<le> time w2
          \<and> (time w2 < time w + grass_regrowth_time g0 \<or> time w2 = time w \<longrightarrow>
               \<not> is_grown_patch w2 p
               \<and> pending w2 p = [time w + grass_regrowth_time g0])
          \<and> (time w2 + 1 = max (time w + grass_regrowth_time g0) (time w + 1) \<longrightarrow>
               (\<exists>w3. perform Tick w2 = Inr w3 \<and> time w3 = time w2 + 1
                     \<and> is_grown_patch w3 p \<and> pending w3 p = []))"
      if r: "run acts w1 = Inr w2" for acts w2
      using consumed_regrows [OF ok1 gr c(4) r] c(5) by simp
    with c show ?thesis by blast
  qed
  from 1 GrassPatch_init_new [OF ok] 3 show ?thesis by blast
qed

theorem GrassPatch_automaton_witness:
  "run (sowing 3) (empty_world no_neighbours (sconst 0) 0) = Inr (paddock True 8 1 [] 3)
   \<and> length (pending (paddock True 8 1 [] 3) 0) \<le> 1
   \<and> (\<exists>w'. GrassPatch_init (paddock True 8 1 [] 3) 2 3 0 = Inr w'
          \<and> \<not> is_grown_patch w' 2 \<and> pending w' 2 = [3])
   \<and> (\<exists>w'. GrassPatch_init (paddock True 8 1 [] 3) 0 3 0 = Inr w'
          \<and> is_grown_patch w' 2 \<and> pending w' 2 = [])
   \<and> perform (Step (Suc 0)) (paddock True 8 1 [] 3) = Inr (paddock False 11 1 [(4, 0)] 3)
   \<and> pending (paddock False 11 1 [(4, 0)] 3) 0 = [4]
   \<and> run [Tick, Step (Suc 0), Tick, Step (Suc 0)] (paddock False 11 1 [(4, 0)] 3)
       = Inr (paddock False 9 3 [(4, 0)] 3)
   \<and> \<not> is_grown_patch (paddock False 9 3 [(4, 0)] 3) 0
   \<and> pending (paddock False 9 3 [(4, 0)] 3) 0 = [4]
   \<and> (\<exists>w3. perform Tick (paddock False 9 3 [(4, 0)] 3) = Inr w3 \<and> time w3 = 4
          \<and> is_grown_patch w3 0 \<and> pending w3 0 = [])"
proof -
  define w where "w = paddock True 8 1 [] 3"
  define w1 where "w1 = paddock False 11 1 [(4, 0)] 3"
  define w2 where "w2 = paddock False 9 3 [(4, 0)] 3"
  have reach: "run (sowing 3) (empty_world no_neighbours (sconst 0) 0) = Inr w"
    unfolding w_def by (rule paddock_reached)
  note T = GrassPatch_automaton [OF reach]
  have f: "next_id w = 2" "time w = 1" "is_grown_patch w 0"
    "patches w 0 = Some \<lparr>fully_grown = True, grass_regrowth_time = 3, patch_cell = 0\<rparr>"
    "\<not> is_grown_patch w1 0"
    by (simp_all add: w_def w1_def paddock_fields)
  from T [THEN conjunct1, THEN spec, of 0] have inv: "length (pending w 0) \<le> 1"
    by (rule conjunct1)
  note C = T [THEN conjunct2, THEN conjunct1]
  from C have C2: "(0 \<le> (2::int) \<longrightarrow> (\<exists>w'. GrassPatch_init w 2 3 0 = Inr w'))
       \<and> (\<forall>w'. GrassPatch_init w 2 3 0 = Inr w' \<longrightarrow>
            agents w' (next_id w) = Some (GrassPatch
              \<lparr>fully_grown = (2 = (0::int)), grass_regrowth_time = 3, patch_cell = 0\<rparr>)
            \<and> is_grown_patch w' (next_id w) = (2 = (0::int))
            \<and> pending w' (next_id w) = (if 2 = (0::int) then [] else [time w + 2]))"
    by blast
  then obtain v where v: "GrassPatch_init w 2 3 0 = Inr v" by auto
  with C2 f(1,2) have v2: "\<not> is_grown_patch v 2 \<and> pending v 2 = [3]" by auto
  from C have C0: "(0 \<le> (0::int) \<longrightarrow> (\<exists>w'. GrassPatch_init w 0 3 0 = Inr w'))
       \<and> (\<forall>w'. GrassPatch_init w 0 3 0 = Inr w' \<longrightarrow>
            agents w' (next_id w) = Some (GrassPatch
              \<lparr>fully_grown = (0 = (0::int)), grass_regrowth_time = 3, patch_cell = 0\<rparr>)
            \<and> is_grown_patch w' (next_id w) = (0 = (0::int))
            \<and> pending w' (next_id w) = (if 0 = (0::int) then [] else [time w + 0]))"
    by blast
  then obtain u where u: "GrassPatch_init w 0 3 0 = Inr u" by auto
  with C0 f(1,2) have u2: "is_grown_patch u 2 \<and> pending u 2 = []" by auto
  have step: "perform (Step (Suc 0)) w = Inr w1"
    using paddock_eat [of 3 8 1] by (simp add: w_def w1_def)
  note K = T [THEN conjunct2, THEN conjunct2, THEN spec, THEN spec, THEN spec, THEN mp,
              OF conjI [OF step conjI [OF f(3) f(5)]]]
  then obtain g where g: "patches w 0 = Some g"
    and p1: "pending w1 0 = [time w + grass_regrowth_time g]"
    and R: "\<forall>acts w2. run acts w1 = Inr w2 \<longrightarrow>
                    time w \<le> time w2
                    \<and> (time w2 < time w + grass_regrowth_time g \<or> time w2 = time w \<longrightarrow>
                         \<not> is_grown_patch w2 0
                         \<and> pending w2 0 = [time w + grass_regrowth_time g])
                    \<and> (time w2 + 1 = max (time w + grass_regrowth_time g) (time w + 1) \<longrightarrow>
                         (\<exists>w3. perform Tick w2 = Inr w3 \<and> time w3 = time w2 + 1
                               \<and> is_grown_patch w3 0 \<and> pending w3 0 = []))"
    by blast
  from g f(4) have gr: "grass_regrowth_time g = 3" by auto
  have run: "run [Tick, Step (Suc 0), Tick, Step (Suc 0)] w1 = Inr w2"
    using paddock_wait [of 11 2 "[(4, 0)]" 3] paddock_wait [of 10 3 "[(4, 0)]" 3]
    by (simp add: w1_def w2_def paddock_tick)
  have t2: "time w2 = 3" by (simp add: w2_def paddock_fields)
  from R [THEN spec, THEN spec, THEN mp, OF run] gr f(2) t2
  have a: "\<not> is_grown_patch w2 0 \<and> pending w2 0 = [4]"
    and b: "\<exists>w3. perform Tick w2 = Inr w3 \<and> time w3 = 4
               \<and> is_grown_patch w3 0 \<and> pending w3 0 = []"
    by simp_all
  from p1 gr f(2) have p1': "pending w1 0 = [4]" by simp
  from reach inv v v2 u u2 step p1' run a b show ?thesis
    unfolding w_def w1_def w2_def by blast
qed

text \<open>
  With regrowth time 0 the patch of the pasture, eaten by the sheep at tick 1, is not
  grown in the world the step leaves at tick 1; the event, due at time 1, fires when
  tick 2 starts.
\<close>

theorem regrowth_time_zero_counterexample:
  "run (sowing 0) (empty_world no_neighbours (sconst 0) 0) = Inr (paddock True 8 1 [] 0)
   \<and> grass_regrowth_time (the (patches (paddock True 8 1 [] 0) 0)) = 0
   \<and> is_grown_patch (paddock True 8 1 [] 0) 0
   \<and> perform (Step (Suc 0)) (paddock True 8 1 [] 0) = Inr (paddock False 11 1 [(1, 0)] 0)
   \<and> time (paddock False 11 1 [(1, 0)] 0) = 1
   \<and> \<not> is_grown_patch (paddock False 11 1 [(1, 0)] 0) 0
   \<and> perform Tick (paddock False 11 1 [(1, 0)] 0) = Inr (paddock True 11 2 [] 0)
   \<and> time (paddock True 11 2 [] 0) = 2
   \<and> is_grown_patch (paddock True 11 2 [] 0) 0"
  using paddock_eat [of 0 8 1]
  by (simp add: paddock_reached paddock_fields paddock_tick)

end
